theory Spec2Isabelle
  imports Main "HOL-Library.AList"
begin

section \<open>The file cache of hphp/util/file-cache.cpp\<close>

text \<open>
  A shallow embedding of \<^verbatim>\<open>FileCache\<close>. Bytes and characters are both C \<^verbatim>\<open>char\<close>,
  so files, buffers and paths are all \<^typ>\<open>char list\<close>. A \<^verbatim>\<open>char *\<close> is modelled as
  \<^typ>\<open>char list option\<close>: \<open>None\<close> is the null pointer, \<open>Some bs\<close> a pointer to the
  bytes \<open>bs\<close> that can be read from that address on. A \<^verbatim>\<open>const char *name\<close> argument is
  the string of the characters before its terminating NUL. \<^verbatim>\<open>int\<close> and \<^verbatim>\<open>short\<close> values
  are \<^typ>\<open>int\<close>, wrapped to 32 and 16 bits where the source converts or computes.
\<close>

subsection \<open>Machine integers and their bytes\<close>

definition s32 :: "int \<Rightarrow> int" where
  "s32 x = (x + 2147483648) mod 4294967296 - 2147483648"

definition s16 :: "int \<Rightarrow> int" where
  "s16 x = (x + 32768) mod 65536 - 32768"

text \<open>C division truncates towards zero.\<close>

definition c_div :: "int \<Rightarrow> int \<Rightarrow> int" where
  "c_div a b = sgn a * sgn b * (\<bar>a\<bar> div \<bar>b\<bar>)"

text \<open>The bytes of an integer in memory, least significant first (the host is little endian).\<close>

fun le_bytes :: "nat \<Rightarrow> int \<Rightarrow> char list" where
  "le_bytes 0 x = []"
| "le_bytes (Suc n) x = char_of (x mod 256) # le_bytes n (x div 256)"

fun le_val :: "char list \<Rightarrow> int" where
  "le_val [] = 0"
| "le_val (c # cs) = of_char c + 256 * le_val cs"

definition NUL :: char where
  "NUL = CHR 0x00"

text \<open>\<^verbatim>\<open>std::string::c_str()\<close> read back as a C string: the characters before the first NUL.\<close>

definition c_str :: "string \<Rightarrow> string" where
  "c_str s = takeWhile (\<lambda>c. c \<noteq> NUL) s"

text \<open>Storing \<open>got\<close> bytes at the start of a variable whose bytes were \<open>old\<close>.\<close>

definition overlay :: "char list \<Rightarrow> char list \<Rightarrow> char list" where
  "overlay got old = got @ drop (length got) old"

subsection \<open>Errors\<close>

datatype exn =
    UnableToAddEntry | UnableToStat | UnableToOpen | UnableToReadAllBytes
  | UnableToSave | NonMmapLoadNotSupported | UnableToLoadCache | UnableToMmap
  | BadFileNameLength | BadFileName | SameFileTwice string
  | BadDataLength | BadData | BadCompressedData

datatype error =
    Exception exn        \<comment> \<open>\<^verbatim>\<open>throw Exception(...)\<close>\<close>
  | AssertionFailed      \<comment> \<open>\<^verbatim>\<open>assert\<close>\<close>
  | AlwaysAssertFailed   \<comment> \<open>\<^verbatim>\<open>always_assert\<close>\<close>
  | UndefinedBehaviour   \<comment> \<open>an overflowed or negative size reaches malloc, fread or fwrite\<close>
  | OutOfBounds          \<comment> \<open>a read outside the mapped region\<close>

subsection \<open>Data\<close>

record Buffer =
  len :: int
  data :: "char list option"
  clen :: int
  cdata :: "char list option"

record globals =
  SourceRoot :: string
  UseNewCache :: bool

text \<open>
  \<^verbatim>\<open>FileMap\<close> is declared in file-cache.h, which is not among the sources; the code uses
  it as a map from \<^verbatim>\<open>std::string\<close> to \<^verbatim>\<open>Buffer\<close> with \<^verbatim>\<open>find\<close>, \<^verbatim>\<open>operator[]\<close> and
  iteration. It is an association list with unique keys here: \<open>map_of\<close> is \<^verbatim>\<open>find\<close>,
  \<open>AList.update\<close> is assignment through \<^verbatim>\<open>operator[]\<close>, and the list order is the
  iteration order.
\<close>

record 'cm FileCache =
  m_fd :: int
  m_size :: nat
  m_addr :: "char list option"
  m_files :: "(string \<times> Buffer) list"
  cache_manager :: 'cm

text \<open>
  What the code calls and this file does not define: the file system, the codec of
  hphp/util/compression.h, and the alternate backend (\<^verbatim>\<open>CacheManager\<close>, \<^verbatim>\<open>CacheType\<close>).
  The codec maps the bytes it is given to the bytes it returns, \<open>None\<close> for a null result.
\<close>

record 'cm externals =
  stat :: "string \<Rightarrow> nat option"
  fopen_r :: "string \<Rightarrow> char list option"
  fopen_w :: "string \<Rightarrow> bool"
  open_rdonly :: "string \<Rightarrow> int"
  mmap :: "int \<Rightarrow> nat \<Rightarrow> char list option"
  is_compressible_file :: "string \<Rightarrow> bool"
  gzencode :: "char list \<Rightarrow> char list option"
  gzdecode :: "char list \<Rightarrow> char list option"
  isNewCache :: "string \<Rightarrow> bool"
  addEmptyEntry :: "'cm \<Rightarrow> string \<Rightarrow> bool \<times> 'cm"
  addFileContents :: "'cm \<Rightarrow> string \<Rightarrow> string \<Rightarrow> bool \<times> 'cm"
  saveCache :: "'cm \<Rightarrow> string \<Rightarrow> bool"
  loadCache :: "'cm \<Rightarrow> string \<Rightarrow> bool \<times> 'cm"
  entryExists :: "'cm \<Rightarrow> string \<Rightarrow> bool"
  cm_fileExists :: "'cm \<Rightarrow> string \<Rightarrow> bool"
  cm_dirExists :: "'cm \<Rightarrow> string \<Rightarrow> bool"
  emptyEntryExists :: "'cm \<Rightarrow> string \<Rightarrow> bool"
  getFileContents :: "'cm \<Rightarrow> string \<Rightarrow> (char list \<times> nat \<times> bool) option"
  getUncompressedFileSize :: "'cm \<Rightarrow> string \<Rightarrow> nat option"

subsection \<open>Path normalisation\<close>

text \<open>\<^verbatim>\<open>strncmp(a, b, n) == 0\<close> on NUL-terminated strings.\<close>

fun strncmp_eq :: "string \<Rightarrow> string \<Rightarrow> nat \<Rightarrow> bool" where
  "strncmp_eq a b 0 = True"
| "strncmp_eq a b (Suc n) =
     (let x = (case a of [] \<Rightarrow> NUL | c # _ \<Rightarrow> c);
          y = (case b of [] \<Rightarrow> NUL | c # _ \<Rightarrow> c)
      in if x \<noteq> y then False
         else if x = NUL then True
         else strncmp_eq (tl a) (tl b) n)"

definition GetRelativePath :: "globals \<Rightarrow> string \<Rightarrow> string" where
  "GetRelativePath g path =
     (let n = length (SourceRoot g);
          relative = (if n > 0 \<and> length path > n \<and> strncmp_eq path (c_str (SourceRoot g)) n
                      then drop n path else path)
      in if relative \<noteq> [] \<and> last relative = CHR ''/'' then butlast relative else relative)"

subsection \<open>Queries\<close>

definition fileExists :: "'cm externals \<Rightarrow> globals \<Rightarrow> 'cm FileCache \<Rightarrow> string \<Rightarrow> bool \<Rightarrow> bool" where
  "fileExists ext g t name isRelative =
     (let name = (if isRelative then name else c_str (GetRelativePath g name)) in
      if UseNewCache g
      then cm_fileExists ext (cache_manager t) name \<or> emptyEntryExists ext (cache_manager t) name
      else if name \<noteq> []
      then (case map_of (m_files t) name of
              Some buf \<Rightarrow> len buf \<ge> - 1
            | None \<Rightarrow> False)
      else False)"

definition dirExists :: "'cm externals \<Rightarrow> globals \<Rightarrow> 'cm FileCache \<Rightarrow> string \<Rightarrow> bool \<Rightarrow> bool" where
  "dirExists ext g t name isRelative =
     (let name = (if isRelative then name else c_str (GetRelativePath g name)) in
      if UseNewCache g
      then cm_dirExists ext (cache_manager t) name
      else if name \<noteq> []
      then (case map_of (m_files t) name of
              Some buf \<Rightarrow> len buf = - 2
            | None \<Rightarrow> False)
      else False)"

definition exists :: "'cm externals \<Rightarrow> globals \<Rightarrow> 'cm FileCache \<Rightarrow> string \<Rightarrow> bool \<Rightarrow> bool" where
  "exists ext g t name isRelative =
     (let name = (if isRelative then name else c_str (GetRelativePath g name)) in
      if UseNewCache g
      then entryExists ext (cache_manager t) name
      else if name \<noteq> []
      then map_of (m_files t) name \<noteq> None
      else False)"

text \<open>
  \<^verbatim>\<open>read\<close> returns a pointer and writes through the references \<^verbatim>\<open>len\<close> and
  \<^verbatim>\<open>compressed\<close>; the model returns the pointer with the final values of both, which
  are the caller's \<open>n0\<close> and \<open>compressed0\<close> where the code does not assign them. The
  literal \<^verbatim>\<open>""\<close> is a pointer to one NUL byte.
\<close>

definition read ::
  "'cm externals \<Rightarrow> globals \<Rightarrow> 'cm FileCache \<Rightarrow> string \<Rightarrow> int \<Rightarrow> bool
     \<Rightarrow> error + (char list option \<times> int \<times> bool)" where
  "read ext g t name n0 compressed0 =
     (if name \<noteq> [] then
        if UseNewCache g then
          (case getFileContents ext (cache_manager t) name of
             None \<Rightarrow> Inr (None, n0, compressed0)
           | Some (bytes, data_len, data_compressed) \<Rightarrow>
               Inr (Some bytes, s32 (int data_len), data_compressed))
        else
          (case map_of (m_files t) name of
             Some buf \<Rightarrow>
               if compressed0 \<and> cdata buf \<noteq> None then
                 (if clen buf > 0 then Inr (cdata buf, clen buf, compressed0)
                  else Inl AssertionFailed)
               else if \<not> compressed0 \<and> data buf = None \<and> cdata buf \<noteq> None then
                 (if clen buf > 0 then Inr (cdata buf, clen buf, True)
                  else Inl AssertionFailed)
               else if len buf = 0 then
                 (if data buf = None then Inr (Some [NUL], 0, False)
                  else Inl AssertionFailed)
               else Inr (data buf, len buf, False)
           | None \<Rightarrow> Inr (None, n0, compressed0))
      else Inr (None, n0, compressed0))"

definition fileSize ::
  "'cm externals \<Rightarrow> globals \<Rightarrow> 'cm FileCache \<Rightarrow> string \<Rightarrow> bool \<Rightarrow> error + int" where
  "fileSize ext g t name isRelative =
     (if name = [] then Inr (- 1)
      else
        let name = (if isRelative then name else c_str (GetRelativePath g name)) in
        if name = [] then Inr (- 1)
        else if UseNewCache g then
          (case getUncompressedFileSize ext (cache_manager t) name of
             None \<Rightarrow> Inr (- 1)
           | Some sz \<Rightarrow> Inr (int sz))
        else
          (case map_of (m_files t) name of
             Some buf \<Rightarrow>
               if len buf \<ge> 0 then Inr (len buf)
               else (case cdata buf of
                       Some cb \<Rightarrow>
                         (case gzdecode ext (take (nat (clen buf)) cb) of
                            None \<Rightarrow> Inl (Exception BadCompressedData)
                          | Some out \<Rightarrow> Inr (int (length out)))
                     | None \<Rightarrow> Inr (- 1))
           | None \<Rightarrow> Inr (- 1)))"

subsection \<open>The builder\<close>

definition directory_buffer :: Buffer where
  "directory_buffer = \<lparr>len = - 2, data = None, clen = - 2, cdata = None\<rparr>"

function writeDirectories_from ::
  "'cm externals \<Rightarrow> globals \<Rightarrow> string \<Rightarrow> nat \<Rightarrow> 'cm FileCache \<Rightarrow> 'cm FileCache" where
  "writeDirectories_from ext g sname i t =
     (if int i < s32 (int (length sname)) then
        writeDirectories_from ext g sname (Suc i)
          (if sname ! i = CHR ''/'' then
             (let dir = take i sname in
              if \<not> exists ext g t (c_str dir) True
              then t\<lparr>m_files := AList.update dir directory_buffer (m_files t)\<rparr>
              else t)
           else t)
      else t)"
  by pat_completeness blast
termination
proof (relation "measure (\<lambda>(ext, g, sname, i, t). length sname - i)")
  show "wf (measure (\<lambda>(ext, g, sname, i, t). length sname - i))"
    by simp
next
  fix ext :: "'cm externals" and g :: globals and sname :: string and i :: nat
    and t :: "'cm FileCache"
  assume a: "int i < s32 (int (length sname))"
  have "(int (length sname) + 2147483648) mod 4294967296 \<le> int (length sname) + 2147483648"
    by (rule zmod_le_nonneg_dividend) simp
  then have "s32 (int (length sname)) \<le> int (length sname)"
    by (simp add: s32_def)
  with a have "i < length sname"
    by linarith
  then show "((ext, g, sname, Suc i,
                if sname ! i = CHR ''/''
                then let dir = take i sname
                     in if \<not> exists ext g t (c_str dir) True
                        then t\<lparr>m_files := AList.update dir directory_buffer (m_files t)\<rparr>
                        else t
                else t),
               ext, g, sname, i, t)
              \<in> measure (\<lambda>(ext, g, sname, i, t). length sname - i)"
    by simp
qed

declare writeDirectories_from.simps [simp del]

definition writeDirectories ::
  "'cm externals \<Rightarrow> globals \<Rightarrow> string \<Rightarrow> 'cm FileCache \<Rightarrow> 'cm FileCache" where
  "writeDirectories ext g name t = writeDirectories_from ext g name 1 t"

text \<open>
  The operations that change the instance return \<open>Inr\<close> of the new state, or \<open>Inl\<close> of
  the error with the state the instance is left in. \<^verbatim>\<open>assert\<close> is embedded as it behaves
  when assertions are compiled in: a failed assertion ends the operation with
  \<open>AssertionFailed\<close>. Compiled with \<^verbatim>\<open>NDEBUG\<close> the assertions are no code, and the two
  \<^verbatim>\<open>write\<close> functions called for a path that is present go on and overwrite its entry.
\<close>

definition write_name ::
  "'cm externals \<Rightarrow> globals \<Rightarrow> 'cm FileCache \<Rightarrow> string \<Rightarrow> bool
     \<Rightarrow> (error \<times> 'cm FileCache) + 'cm FileCache" where
  "write_name ext g t name addDirectories =
     (if name = [] then Inl (AssertionFailed, t)
      else if exists ext g t name True then Inl (AssertionFailed, t)
      else if UseNewCache g then
        (case addEmptyEntry ext (cache_manager t) name of
           (ok, cm) \<Rightarrow>
             if \<not> ok then Inl (Exception UnableToAddEntry, t\<lparr>cache_manager := cm\<rparr>)
             else Inr (t\<lparr>cache_manager := cm\<rparr>))
      else
        let t1 = t\<lparr>m_files := AList.update name
                      \<lparr>len = - 1, data = None, clen = - 1, cdata = None\<rparr> (m_files t)\<rparr>
        in Inr (if addDirectories then writeDirectories ext g name t1 else t1))"

text \<open>
  A \<^verbatim>\<open>FILE *\<close> opened for reading: the bytes not yet read and the end-of-file
  indicator. \<^verbatim>\<open>fread(buf, 1, n, f)\<close> delivers the next \<open>n\<close> bytes, or all that is left
  when that is less, and then sets the indicator.
\<close>

record FILE =
  rest :: "char list"
  eof :: bool

definition fread :: "nat \<Rightarrow> FILE \<Rightarrow> char list \<times> FILE" where
  "fread n f = (take n (rest f), \<lparr>rest = drop n (rest f), eof = (eof f \<or> length (rest f) < n)\<rparr>)"

text \<open>
  \<^verbatim>\<open>read_bytes(FILE *f, char *buf, int len)\<close>: the loop, with \<open>nread\<close> carried along; the
  result is \<open>nread\<close> as a \<^verbatim>\<open>bool\<close>, the bytes stored in \<open>buf\<close>, and the stream.
\<close>

function read_bytes_from :: "nat \<Rightarrow> FILE \<Rightarrow> char list \<Rightarrow> nat \<Rightarrow> bool \<times> char list \<times> FILE" where
  "read_bytes_from nread f buf n =
     (if n \<noteq> 0 then
        (case fread n f of
           (got, f') \<Rightarrow>
             if length got \<noteq> 0
             then read_bytes_from (length got) f' (buf @ got) (n - length got)
             else (False, buf, f'))
      else (nread \<noteq> 0, buf, f))"
  by pat_completeness auto
termination
  by (relation "measure (\<lambda>(nread, f, buf, n). n)") (auto simp: fread_def)

declare read_bytes_from.simps [simp del]

definition read_bytes :: "FILE \<Rightarrow> nat \<Rightarrow> bool \<times> char list \<times> FILE" where
  "read_bytes f n = read_bytes_from 0 f [] n"

text \<open>
  \<^verbatim>\<open>write(name, fullpath)\<close>. \<^verbatim>\<open>int len = sb.st_size\<close> keeps the low 32 bits of the size;
  a negative \<open>len\<close> would reach \<^verbatim>\<open>malloc\<close> and \<^verbatim>\<open>fread\<close> as a huge size, which is
  \<open>UndefinedBehaviour\<close> here. The product \<open>len * 3\<close> is wrapped to 32 bits.
\<close>

definition write_fullpath ::
  "'cm externals \<Rightarrow> globals \<Rightarrow> 'cm FileCache \<Rightarrow> string \<Rightarrow> string
     \<Rightarrow> (error \<times> 'cm FileCache) + 'cm FileCache" where
  "write_fullpath ext g t name fullpath =
     (if name = [] \<or> fullpath = [] then Inl (AssertionFailed, t)
      else if exists ext g t name True then Inl (AssertionFailed, t)
      else if UseNewCache g then
        (case addFileContents ext (cache_manager t) name fullpath of
           (ok, cm) \<Rightarrow>
             if \<not> ok then Inl (Exception UnableToAddEntry, t\<lparr>cache_manager := cm\<rparr>)
             else Inr (t\<lparr>cache_manager := cm\<rparr>))
      else
        (case stat ext fullpath of
           None \<Rightarrow> Inl (Exception UnableToStat, t)
         | Some st_size \<Rightarrow>
             let n = s32 (int st_size);
                 t1 = t\<lparr>m_files := AList.update name
                        \<lparr>len = n, data = None, clen = - 1, cdata = None\<rparr> (m_files t)\<rparr>
             in
             if n \<noteq> 0 then
               (case fopen_r ext fullpath of
                  None \<Rightarrow> Inl (Exception UnableToOpen, t1)
                | Some contents \<Rightarrow>
                    if n < 0 then Inl (UndefinedBehaviour, t1)
                    else
                      (case read_bytes \<lparr>rest = contents, eof = False\<rparr> (nat n) of
                         (ok, buf, f) \<Rightarrow>
                           let raw = \<lparr>len = n, data = Some buf, clen = - 1, cdata = None\<rparr>;
                               t2 = t1\<lparr>m_files := AList.update name raw (m_files t1)\<rparr>
                           in
                           if \<not> ok then Inl (Exception UnableToReadAllBytes, t2)
                           else if is_compressible_file ext name then
                             (case gzencode ext buf of
                                Some compressed \<Rightarrow>
                                  let new_len = int (length compressed) in
                                  if new_len < c_div (s32 (n * 3)) 4
                                  then Inr (writeDirectories ext g name
                                         (t2\<lparr>m_files := AList.update name
                                            (raw\<lparr>clen := new_len, cdata := Some compressed\<rparr>)
                                            (m_files t2)\<rparr>))
                                  else Inr (writeDirectories ext g name t2)
                              | None \<Rightarrow> Inr (writeDirectories ext g name t2))
                           else Inr (writeDirectories ext g name t2)))
             else Inr (writeDirectories ext g name t1)))"

subsection \<open>Serialisation\<close>

definition kCurrentFileCacheVersion :: int where
  "kCurrentFileCacheVersion = 1"

text \<open>
  One record of \<^verbatim>\<open>save\<close>: the bytes the loop body writes for one entry.
  \<^verbatim>\<open>short name_len = file.first.size()\<close> keeps the low 16 bits of the size; a negative
  \<open>name_len\<close>, or a buffer shorter than its length field, would make \<^verbatim>\<open>fwrite\<close> read
  past the buffer, which is \<open>UndefinedBehaviour\<close> here.
\<close>

definition save_entry :: "string \<times> Buffer \<Rightarrow> error + char list" where
  "save_entry file =
     (let name = fst file; buffer = snd file;
          name_len = s16 (int (length name))
      in
      if name_len = 0 then Inl AssertionFailed
      else if name_len < 0 then Inl UndefinedBehaviour
      else
        let head = le_bytes 2 name_len @ take (nat name_len) name in
        (case cdata buffer of
           Some cb \<Rightarrow>
             if clen buffer \<le> 0 then Inl AssertionFailed
             else if int (length cb) < clen buffer then Inl UndefinedBehaviour
             else Inr (head @ [CHR 0x01] @ le_bytes 4 (clen buffer)
                         @ take (nat (clen buffer)) cb @ [NUL])
         | None \<Rightarrow>
             if len buffer > 0 then
               (case data buffer of
                  None \<Rightarrow> Inl AssertionFailed
                | Some db \<Rightarrow>
                    if int (length db) < len buffer then Inl UndefinedBehaviour
                    else Inr (head @ [NUL] @ le_bytes 4 (len buffer)
                                @ take (nat (len buffer)) db @ [NUL]))
             else Inr (head @ [NUL] @ le_bytes 4 (len buffer))))"

fun save_entries :: "(string \<times> Buffer) list \<Rightarrow> error + char list" where
  "save_entries [] = Inr []"
| "save_entries (file # files) =
     (case save_entry file of
        Inl e \<Rightarrow> Inl e
      | Inr bs \<Rightarrow> (case save_entries files of Inl e \<Rightarrow> Inl e | Inr cs \<Rightarrow> Inr (bs @ cs)))"

text \<open>
  \<^verbatim>\<open>save\<close> returns the bytes it writes to the file, \<open>None\<close> when the alternate backend
  wrote the file instead.
\<close>

definition save ::
  "'cm externals \<Rightarrow> globals \<Rightarrow> 'cm FileCache \<Rightarrow> string \<Rightarrow> error + char list option" where
  "save ext g t filename =
     (if filename = [] then Inl AssertionFailed
      else if UseNewCache g then
        (if \<not> saveCache ext (cache_manager t) filename then Inl (Exception UnableToSave)
         else Inr None)
      else if \<not> fopen_w ext filename then Inl (Exception UnableToOpen)
      else
        (case save_entries (m_files t) of
           Inl e \<Rightarrow> Inl e
         | Inr bs \<Rightarrow> Inr (Some (le_bytes 2 (- 1) @ le_bytes 2 kCurrentFileCacheVersion @ bs))))"

subsection \<open>Version detection\<close>

definition getVersion ::
  "'cm externals \<Rightarrow> globals \<Rightarrow> string \<Rightarrow> globals \<times> (error + int)" where
  "getVersion ext g filename =
     (if filename = [] then (g, Inl AssertionFailed)
      else if isNewCache ext filename then (g\<lparr>UseNewCache := True\<rparr>, Inr 2)
      else
        (case fopen_r ext filename of
           None \<Rightarrow> (g, Inl (Exception UnableToOpen))
         | Some contents \<Rightarrow>
             (case read_bytes \<lparr>rest = contents, eof = False\<rparr> 2 of
                (ok, tb, f1) \<Rightarrow>
                  let tag = s16 (le_val (overlay tb (le_bytes 2 (- 1)))) in
                  if \<not> ok \<or> tag > 0 then (g, Inr (- 1))
                  else
                    (case read_bytes f1 2 of
                       (ok2, vb, f2) \<Rightarrow>
                         (g, Inr (s16 (le_val (overlay vb (le_bytes 2 (- 1))))))))))"

subsection \<open>The owned-deserialisation loader\<close>

text \<open>
  \<open>with_data\<close> is the entry once \<^verbatim>\<open>buffer.data\<close> points to the allocated buffer
  \<open>db\<close>; \<open>load_payload\<close> is what \<^verbatim>\<open>load\<close> does with the payload once it is in
  memory: keep it raw, keep it compressed, or decompress it.
\<close>

definition with_data :: "string \<Rightarrow> int \<Rightarrow> char list \<Rightarrow> 'cm FileCache \<Rightarrow> 'cm FileCache" where
  "with_data file n db t =
     t\<lparr>m_files := AList.update file
          \<lparr>len = n, data = Some db, clen = - 1, cdata = None\<rparr> (m_files t)\<rparr>"

definition load_payload ::
  "'cm externals \<Rightarrow> bool \<Rightarrow> string \<Rightarrow> char \<Rightarrow> int \<Rightarrow> char list \<Rightarrow> 'cm FileCache
     \<Rightarrow> (error \<times> 'cm FileCache) + 'cm FileCache" where
  "load_payload ext onDemandUncompress file c n db t =
     (if c \<noteq> NUL then
        if onDemandUncompress then
          Inr (t\<lparr>m_files := AList.update file
                 \<lparr>len = - 1, data = None, clen = n, cdata = Some db\<rparr> (m_files t)\<rparr>)
        else
          (case gzdecode ext (take (nat n) db) of
             None \<Rightarrow> Inl (Exception BadCompressedData, with_data file n db t)
           | Some uncompressed \<Rightarrow>
               Inr (t\<lparr>m_files := AList.update file
                      \<lparr>len = int (length uncompressed), data = Some uncompressed,
                       clen = n, cdata = Some db\<rparr> (m_files t)\<rparr>))
      else Inr (with_data file n db t))"

text \<open>
  One pass of the \<^verbatim>\<open>while (true)\<close> loop of \<^verbatim>\<open>load\<close>: \<open>Inr None\<close> is the
  \<^verbatim>\<open>break\<close>, \<open>Inr (Some (f, t))\<close> the stream and the table after one record. The
  name is looked up through \<^verbatim>\<open>file.c_str()\<close> and stored under \<^verbatim>\<open>file\<close>. For the largest
  \<^verbatim>\<open>int\<close> the sum \<open>len + 1\<close> overflows, which is \<open>UndefinedBehaviour\<close> here.
\<close>

definition load_record ::
  "'cm externals \<Rightarrow> globals \<Rightarrow> bool \<Rightarrow> int \<Rightarrow> FILE \<Rightarrow> 'cm FileCache
     \<Rightarrow> (error \<times> 'cm FileCache) + (FILE \<times> 'cm FileCache) option" where
  "load_record ext g onDemandUncompress version f t =
     (case read_bytes f 2 of
        (ok1, nb, f1) \<Rightarrow>
          let name_len = s16 (le_val nb) in
          if \<not> ok1 \<or> name_len \<le> 0 then
            (if eof f1 then Inr None else Inl (Exception BadFileNameLength, t))
          else
            (case read_bytes f1 (nat name_len) of
               (ok2, file, f2) \<Rightarrow>
                 if \<not> ok2 then Inl (Exception BadFileName, t)
                 else if exists ext g t (c_str file) True
                 then Inl (Exception (SameFileTwice (c_str file)), t)
                 else
                   (case read_bytes f2 1 of
                      (ok3, cb, f3) \<Rightarrow>
                        if \<not> ok3 then Inl (Exception BadDataLength, t)
                        else
                          (case read_bytes f3 4 of
                             (ok4, lb, f4) \<Rightarrow>
                               if \<not> ok4 then Inl (Exception BadDataLength, t)
                               else
                                 let c = hd cb; n = s32 (le_val lb);
                                     t1 = t\<lparr>m_files := AList.update file
                                            \<lparr>len = n, data = None, clen = - 1, cdata = None\<rparr>
                                            (m_files t)\<rparr>
                                 in
                                 if n > 0 then
                                   if s32 (n + 1) \<le> 0 then Inl (UndefinedBehaviour, t1)
                                   else if version > 0 then
                                     (case read_bytes f4 (nat (n + 1)) of
                                        (ok5, db, f5) \<Rightarrow>
                                          if \<not> ok5
                                          then Inl (Exception BadData, with_data file n db t1)
                                          else if db ! nat n \<noteq> NUL
                                          then Inl (AlwaysAssertFailed, with_data file n db t1)
                                          else
                                            (case load_payload ext onDemandUncompress file c n db t1 of
                                               Inl e \<Rightarrow> Inl e
                                             | Inr t' \<Rightarrow> Inr (Some (f5, t'))))
                                   else
                                     (case read_bytes f4 (nat n) of
                                        (ok5, db, f5) \<Rightarrow>
                                          if \<not> ok5
                                          then Inl (Exception BadData, with_data file n db t1)
                                          else
                                            (case load_payload ext onDemandUncompress file c n
                                                    (db @ [NUL]) t1 of
                                               Inl e \<Rightarrow> Inl e
                                             | Inr t' \<Rightarrow> Inr (Some (f5, t'))))
                                 else Inr (Some (f4, t1))))))"

text \<open>What \<^verbatim>\<open>read_bytes\<close> computes; the loop of \<^verbatim>\<open>load\<close> terminates by it.\<close>

lemma read_bytes_eq:
  "read_bytes f n =
     (if n = 0 then (False, [], f)
      else if n \<le> length (rest f)
      then (True, take n (rest f), \<lparr>rest = drop n (rest f), eof = eof f\<rparr>)
      else (False, rest f, \<lparr>rest = [], eof = True\<rparr>))"
proof -
  consider "n = 0" | "n \<noteq> 0" "n \<le> length (rest f)" | "n \<noteq> 0" "length (rest f) < n"
    by linarith
  then show ?thesis
  proof cases
    case 1
    then show ?thesis
      by (simp add: read_bytes_def read_bytes_from.simps)
  next
    case 2
    then have "read_bytes_from 0 f [] n =
        read_bytes_from n \<lparr>rest = drop n (rest f), eof = eof f\<rparr> (take n (rest f)) 0"
      by (subst read_bytes_from.simps) (auto simp add: fread_def)
    also have "\<dots> = (True, take n (rest f), \<lparr>rest = drop n (rest f), eof = eof f\<rparr>)"
      using 2 by (subst read_bytes_from.simps) simp
    finally show ?thesis
      using 2 by (simp add: read_bytes_def)
  next
    case 3
    show ?thesis
    proof (cases "rest f = []")
      case True
      then have "read_bytes_from 0 f [] n = (False, [], \<lparr>rest = [], eof = True\<rparr>)"
        using 3 by (subst read_bytes_from.simps) (simp add: fread_def)
      then show ?thesis
        using 3 True by (simp add: read_bytes_def)
    next
      case False
      then have "read_bytes_from 0 f [] n =
          read_bytes_from (length (rest f)) \<lparr>rest = [], eof = True\<rparr> (rest f) (n - length (rest f))"
        using 3 by (subst read_bytes_from.simps) (simp add: fread_def)
      also have "\<dots> = (False, rest f, \<lparr>rest = [], eof = True\<rparr>)"
        using 3 by (subst read_bytes_from.simps) (simp add: fread_def)
      finally show ?thesis
        using 3 by (simp add: read_bytes_def)
    qed
  qed
qed

lemma read_bytes_shrinks:
  "read_bytes f n = (True, b, f') \<Longrightarrow> length (rest f') < length (rest f)"
  by (auto simp: read_bytes_eq split: if_splits)

lemma load_record_shrinks:
  assumes "load_record ext g onDemandUncompress version f t = Inr (Some (f', t'))"
  shows "length (rest f') < length (rest f)"
  using assms unfolding load_record_def Let_def
  by (auto split: prod.splits if_splits sum.splits dest!: read_bytes_shrinks)

function load_loop ::
  "'cm externals \<Rightarrow> globals \<Rightarrow> bool \<Rightarrow> int \<Rightarrow> FILE \<Rightarrow> 'cm FileCache
     \<Rightarrow> (error \<times> 'cm FileCache) + 'cm FileCache" where
  "load_loop ext g onDemandUncompress version f t =
     (case load_record ext g onDemandUncompress version f t of
        Inl e \<Rightarrow> Inl e
      | Inr None \<Rightarrow> Inr t
      | Inr (Some (f', t')) \<Rightarrow> load_loop ext g onDemandUncompress version f' t')"
  by pat_completeness blast
termination
  by (relation "measure (\<lambda>(ext, g, onDemandUncompress, version, f, t). length (rest f))")
     (auto dest: load_record_shrinks)

declare load_loop.simps [simp del]

definition load ::
  "'cm externals \<Rightarrow> globals \<Rightarrow> 'cm FileCache \<Rightarrow> string \<Rightarrow> bool \<Rightarrow> int
     \<Rightarrow> (error \<times> 'cm FileCache) + 'cm FileCache" where
  "load ext g t filename onDemandUncompress version =
     (if filename = [] then Inl (AssertionFailed, t)
      else if UseNewCache g then Inl (Exception NonMmapLoadNotSupported, t)
      else
        (case fopen_r ext filename of
           None \<Rightarrow> Inl (Exception UnableToOpen, t)
         | Some contents \<Rightarrow>
             let f0 = \<lparr>rest = contents, eof = False\<rparr>;
                 f = (if version > 0
                      then snd (snd (read_bytes (snd (snd (read_bytes f0 2))) 2))
                      else f0)
             in load_loop ext g onDemandUncompress version f t))"

subsection \<open>The zero-copy mapped loader\<close>

text \<open>
  The mapped region is the list \<open>region\<close>; the pointers \<^verbatim>\<open>p\<close> and \<^verbatim>\<open>e\<close> are offsets
  into it, natural numbers: pointer arithmetic does not wrap around. \<open>memcpy\<close> is a read of \<open>n\<close> bytes at offset \<open>p\<close>, which is out of bounds
  when it leaves the region. A pointer into the region is the bytes from its offset on.
\<close>

definition memcpy :: "char list \<Rightarrow> nat \<Rightarrow> nat \<Rightarrow> error + char list" where
  "memcpy region p n =
     (if p + n \<le> length region then Inr (take n (drop p region)) else Inl OutOfBounds)"

definition read_bytes_mem ::
  "char list \<Rightarrow> nat \<Rightarrow> nat \<Rightarrow> nat \<Rightarrow> error + (bool \<times> char list \<times> nat)" where
  "read_bytes_mem region p e n =
     (if p + n \<le> e then
        (case memcpy region p n of
           Inl er \<Rightarrow> Inl er
         | Inr bs \<Rightarrow> Inr (n \<noteq> 0, bs, p + n))
      else Inr (False, [], p))"

text \<open>One pass of the \<^verbatim>\<open>while (p < e)\<close> loop: the cursor and the table after one record.\<close>

definition loadMmap_record ::
  "'cm externals \<Rightarrow> globals \<Rightarrow> char list \<Rightarrow> nat \<Rightarrow> nat \<Rightarrow> 'cm FileCache
     \<Rightarrow> (error \<times> 'cm FileCache) + (nat \<times> 'cm FileCache)" where
  "loadMmap_record ext g region e p t =
     (case read_bytes_mem region p e 2 of
        Inl er \<Rightarrow> Inl (er, t)
      | Inr (ok1, nb, p1) \<Rightarrow>
          let name_len = s16 (le_val (overlay nb (le_bytes 2 (- 1)))) in
          if \<not> ok1 \<or> name_len \<le> 0 then Inl (Exception BadFileNameLength, t)
          else
            (case read_bytes_mem region p1 e (nat name_len) of
               Inl er \<Rightarrow> Inl (er, t)
             | Inr (ok2, file, p2) \<Rightarrow>
                 if \<not> ok2 then Inl (Exception BadFileName, t)
                 else if exists ext g t (c_str file) True
                 then Inl (Exception (SameFileTwice (c_str file)), t)
                 else
                   (case read_bytes_mem region p2 e 1 of
                      Inl er \<Rightarrow> Inl (er, t)
                    | Inr (ok3, cb, p3) \<Rightarrow>
                        if \<not> ok3 then Inl (Exception BadDataLength, t)
                        else
                          (case read_bytes_mem region p3 e 4 of
                             Inl er \<Rightarrow> Inl (er, t)
                           | Inr (ok4, lb, p4) \<Rightarrow>
                               if \<not> ok4 then Inl (Exception BadDataLength, t)
                               else
                                 let c = hd cb; n = s32 (le_val lb);
                                     t1 = t\<lparr>m_files := AList.update file
                                            \<lparr>len = n, data = None, clen = - 1, cdata = None\<rparr>
                                            (m_files t)\<rparr>
                                 in
                                 if n > 0 then
                                   if int p4 + n \<ge> int e then Inl (Exception BadData, t1)
                                   else
                                     let t2 = with_data file n (drop p4 region) t1;
                                         p5 = p4 + nat n
                                     in
                                     (case memcpy region p5 1 of
                                        Inl er \<Rightarrow> Inl (er, t2)
                                      | Inr z \<Rightarrow>
                                          if hd z \<noteq> NUL then Inl (AlwaysAssertFailed, t2)
                                          else if c \<noteq> NUL then
                                            Inr (p5 + 1,
                                                 t1\<lparr>m_files := AList.update file
                                                      \<lparr>len = - 1, data = None, clen = n,
                                                       cdata = Some (drop p4 region)\<rparr>
                                                      (m_files t1)\<rparr>)
                                          else Inr (p5 + 1, t2))
                                 else Inr (p4, t1)))))"

lemma loadMmap_record_advances:
  assumes "loadMmap_record ext g region e p t = Inr (p', t')"
  shows "p < p'"
  using assms unfolding loadMmap_record_def Let_def read_bytes_mem_def
  by (auto split: prod.splits if_splits sum.splits)

function loadMmap_loop ::
  "'cm externals \<Rightarrow> globals \<Rightarrow> char list \<Rightarrow> nat \<Rightarrow> nat \<Rightarrow> 'cm FileCache
     \<Rightarrow> (error \<times> 'cm FileCache) + 'cm FileCache" where
  "loadMmap_loop ext g region e p t =
     (if p < e then
        (case loadMmap_record ext g region e p t of
           Inl x \<Rightarrow> Inl x
         | Inr (p', t') \<Rightarrow> loadMmap_loop ext g region e p' t')
      else Inr t)"
  by pat_completeness blast
termination
  by (relation "measure (\<lambda>(ext, g, region, e, p, t). e - p)")
     (auto dest: loadMmap_record_advances)

declare loadMmap_loop.simps [simp del]

text \<open>\<^verbatim>\<open>posix_madvise\<close> is a hint: it changes neither the instance nor the mapping.\<close>

definition adviseOutMemory :: "globals \<Rightarrow> 'cm FileCache \<Rightarrow> 'cm FileCache" where
  "adviseOutMemory g t = (if UseNewCache g then t else t)"

text \<open>
  \<^verbatim>\<open>loadMmap\<close> assigns the static \<^verbatim>\<open>UseNewCache\<close>, so it returns the globals too.
  \<open>m_addr\<close> is \<open>None\<close> both for the null pointer and for \<^verbatim>\<open>MAP_FAILED\<close>.
\<close>

definition loadMmap ::
  "'cm externals \<Rightarrow> globals \<Rightarrow> 'cm FileCache \<Rightarrow> string \<Rightarrow> int
     \<Rightarrow> globals \<times> ((error \<times> 'cm FileCache) + 'cm FileCache)" where
  "loadMmap ext g t filename version =
     (if filename = [] then (g, Inl (AssertionFailed, t))
      else
        let g1 = (if isNewCache ext filename then g\<lparr>UseNewCache := True\<rparr> else g) in
        if UseNewCache g1 then
          (case loadCache ext (cache_manager t) filename of
             (ok, cm) \<Rightarrow>
               if \<not> ok then (g1, Inl (Exception UnableToLoadCache, t\<lparr>cache_manager := cm\<rparr>))
               else (g1, Inr (t\<lparr>cache_manager := cm\<rparr>)))
        else if \<not> version > 0 then (g1, Inl (AlwaysAssertFailed, t))
        else
          (case stat ext filename of
             None \<Rightarrow> (g1, Inl (Exception UnableToStat, t))
           | Some st_size \<Rightarrow>
               let fd = open_rdonly ext filename; t1 = t\<lparr>m_fd := fd\<rparr> in
               if fd = - 1 then (g1, Inl (Exception UnableToOpen, t1))
               else
                 (case mmap ext fd st_size of
                    None \<Rightarrow> (g1, Inl (Exception UnableToMmap, t1\<lparr>m_addr := None\<rparr>))
                  | Some region \<Rightarrow>
                      let t2 = t1\<lparr>m_addr := Some region, m_size := st_size\<rparr> in
                      (g1, case loadMmap_loop ext g1 region st_size 4 t2 of
                             Inl x \<Rightarrow> Inl x
                           | Inr t3 \<Rightarrow> Inr (adviseOutMemory g1 t3)))))"

text \<open>The constructor; \<open>cm\<close> is the \<^verbatim>\<open>new CacheManager\<close>.\<close>

definition FileCache_new :: "'cm \<Rightarrow> 'cm FileCache" where
  "FileCache_new cm = \<lparr>m_fd = - 1, m_size = 0, m_addr = None, m_files = [], cache_manager = cm\<rparr>"

subsection \<open>The operations on the state of the process\<close>

text \<open>
  \<^verbatim>\<open>SourceRoot\<close> and \<^verbatim>\<open>UseNewCache\<close> are static members: variables of the process, which
  every function of the class can read and assign. To see what the operations do to them,
  the operations are embedded once more, now as functions of the state of the whole
  process: the static members together with the instance the member function is called
  on. Each returns its result with the state it leaves, and each statement of the source
  that assigns a variable is an update of that state. What is called and not defined in
  this file (the file system, the codec, the alternate backend) is taken not to assign
  the static members.
\<close>

record 'cm process =
  statics :: globals
  self :: "'cm FileCache"

text \<open>\<^verbatim>\<open>GetRelativePath\<close> is a static member function: it reads \<^verbatim>\<open>SourceRoot\<close>.\<close>

definition GetRelativePath_st :: "string \<Rightarrow> 'cm process \<Rightarrow> string \<times> 'cm process" where
  "GetRelativePath_st path w =
     (let n = length (SourceRoot (statics w));
          relative = (if n > 0 \<and> length path > n \<and>
                         strncmp_eq path (c_str (SourceRoot (statics w))) n
                      then drop n path else path)
      in (if relative \<noteq> [] \<and> last relative = CHR ''/'' then butlast relative else relative, w))"

text \<open>
  The queries call themselves on \<^verbatim>\<open>GetRelativePath(name).c_str()\<close> when the name is not
  relative; \<open>relative_name\<close> is the name they look up.
\<close>

definition relative_name ::
  "string \<Rightarrow> bool \<Rightarrow> 'cm process \<Rightarrow> string \<times> 'cm process" where
  "relative_name name isRelative w =
     (if isRelative then (name, w)
      else (case GetRelativePath_st name w of (relative, w1) \<Rightarrow> (c_str relative, w1)))"

definition fileExists_st ::
  "'cm externals \<Rightarrow> string \<Rightarrow> bool \<Rightarrow> 'cm process \<Rightarrow> bool \<times> 'cm process" where
  "fileExists_st ext name isRelative w =
     (case relative_name name isRelative w of
        (name, w1) \<Rightarrow>
          if UseNewCache (statics w1)
          then (cm_fileExists ext (cache_manager (self w1)) name \<or>
                emptyEntryExists ext (cache_manager (self w1)) name, w1)
          else if name \<noteq> []
          then (case map_of (m_files (self w1)) name of
                  Some buf \<Rightarrow> (len buf \<ge> - 1, w1)
                | None \<Rightarrow> (False, w1))
          else (False, w1))"

definition dirExists_st ::
  "'cm externals \<Rightarrow> string \<Rightarrow> bool \<Rightarrow> 'cm process \<Rightarrow> bool \<times> 'cm process" where
  "dirExists_st ext name isRelative w =
     (case relative_name name isRelative w of
        (name, w1) \<Rightarrow>
          if UseNewCache (statics w1)
          then (cm_dirExists ext (cache_manager (self w1)) name, w1)
          else if name \<noteq> []
          then (case map_of (m_files (self w1)) name of
                  Some buf \<Rightarrow> (len buf = - 2, w1)
                | None \<Rightarrow> (False, w1))
          else (False, w1))"

definition exists_st ::
  "'cm externals \<Rightarrow> string \<Rightarrow> bool \<Rightarrow> 'cm process \<Rightarrow> bool \<times> 'cm process" where
  "exists_st ext name isRelative w =
     (case relative_name name isRelative w of
        (name, w1) \<Rightarrow>
          if UseNewCache (statics w1)
          then (entryExists ext (cache_manager (self w1)) name, w1)
          else if name \<noteq> []
          then (map_of (m_files (self w1)) name \<noteq> None, w1)
          else (False, w1))"

definition read_st ::
  "'cm externals \<Rightarrow> string \<Rightarrow> int \<Rightarrow> bool \<Rightarrow> 'cm process
     \<Rightarrow> (error + (char list option \<times> int \<times> bool)) \<times> 'cm process" where
  "read_st ext name n0 compressed0 w =
     (if name \<noteq> [] then
        if UseNewCache (statics w) then
          (case getFileContents ext (cache_manager (self w)) name of
             None \<Rightarrow> (Inr (None, n0, compressed0), w)
           | Some (bytes, data_len, data_compressed) \<Rightarrow>
               (Inr (Some bytes, s32 (int data_len), data_compressed), w))
        else
          (case map_of (m_files (self w)) name of
             Some buf \<Rightarrow>
               if compressed0 \<and> cdata buf \<noteq> None then
                 (if clen buf > 0 then (Inr (cdata buf, clen buf, compressed0), w)
                  else (Inl AssertionFailed, w))
               else if \<not> compressed0 \<and> data buf = None \<and> cdata buf \<noteq> None then
                 (if clen buf > 0 then (Inr (cdata buf, clen buf, True), w)
                  else (Inl AssertionFailed, w))
               else if len buf = 0 then
                 (if data buf = None then (Inr (Some [NUL], 0, False), w)
                  else (Inl AssertionFailed, w))
               else (Inr (data buf, len buf, False), w)
           | None \<Rightarrow> (Inr (None, n0, compressed0), w))
      else (Inr (None, n0, compressed0), w))"

definition fileSize_st ::
  "'cm externals \<Rightarrow> string \<Rightarrow> bool \<Rightarrow> 'cm process \<Rightarrow> (error + int) \<times> 'cm process" where
  "fileSize_st ext name isRelative w =
     (if name = [] then (Inr (- 1), w)
      else
        (case relative_name name isRelative w of
           (name, w1) \<Rightarrow>
             if name = [] then (Inr (- 1), w1)
             else if UseNewCache (statics w1) then
               (case getUncompressedFileSize ext (cache_manager (self w1)) name of
                  None \<Rightarrow> (Inr (- 1), w1)
                | Some sz \<Rightarrow> (Inr (int sz), w1))
             else
               (case map_of (m_files (self w1)) name of
                  Some buf \<Rightarrow>
                    if len buf \<ge> 0 then (Inr (len buf), w1)
                    else (case cdata buf of
                            Some cb \<Rightarrow>
                              (case gzdecode ext (take (nat (clen buf)) cb) of
                                 None \<Rightarrow> (Inl (Exception BadCompressedData), w1)
                               | Some out \<Rightarrow> (Inr (int (length out)), w1))
                          | None \<Rightarrow> (Inr (- 1), w1))
                | None \<Rightarrow> (Inr (- 1), w1))))"

text \<open>\<open>set_entry\<close> is the assignment of the four fields of \<^verbatim>\<open>m_files[name]\<close>.\<close>

definition set_entry :: "string \<Rightarrow> Buffer \<Rightarrow> 'cm process \<Rightarrow> 'cm process" where
  "set_entry name b w = w\<lparr>self := (self w)\<lparr>m_files := AList.update name b (m_files (self w))\<rparr>\<rparr>"

function writeDirectories_from_st ::
  "'cm externals \<Rightarrow> string \<Rightarrow> nat \<Rightarrow> 'cm process \<Rightarrow> 'cm process" where
  "writeDirectories_from_st ext sname i w =
     (if int i < s32 (int (length sname)) then
        writeDirectories_from_st ext sname (Suc i)
          (if sname ! i = CHR ''/'' then
             (let dir = take i sname in
              case exists_st ext (c_str dir) True w of
                (found, w1) \<Rightarrow> if \<not> found then set_entry dir directory_buffer w1 else w1)
           else w)
      else w)"
  by pat_completeness blast
termination
proof (relation "measure (\<lambda>(ext, sname, i, w). length sname - i)")
  show "wf (measure (\<lambda>(ext, sname, i, w). length sname - i))"
    by simp
next
  fix ext :: "'cm externals" and sname :: string and i :: nat and w :: "'cm process"
  assume a: "int i < s32 (int (length sname))"
  have "(int (length sname) + 2147483648) mod 4294967296 \<le> int (length sname) + 2147483648"
    by (rule zmod_le_nonneg_dividend) simp
  then have "s32 (int (length sname)) \<le> int (length sname)"
    by (simp add: s32_def)
  with a have "i < length sname"
    by linarith
  then show "((ext, sname, Suc i,
                if sname ! i = CHR ''/''
                then let dir = take i sname
                     in case exists_st ext (c_str dir) True w of
                          (found, w1) \<Rightarrow>
                            if \<not> found then set_entry dir directory_buffer w1 else w1
                else w),
               ext, sname, i, w)
              \<in> measure (\<lambda>(ext, sname, i, w). length sname - i)"
    by simp
qed

declare writeDirectories_from_st.simps [simp del]

definition writeDirectories_st :: "'cm externals \<Rightarrow> string \<Rightarrow> 'cm process \<Rightarrow> 'cm process" where
  "writeDirectories_st ext name w = writeDirectories_from_st ext name 1 w"

text \<open>The two \<^verbatim>\<open>write\<close> functions, \<^verbatim>\<open>save\<close> and \<^verbatim>\<open>getVersion\<close>.\<close>

definition write_name_st ::
  "'cm externals \<Rightarrow> string \<Rightarrow> bool \<Rightarrow> 'cm process \<Rightarrow> (error + unit) \<times> 'cm process" where
  "write_name_st ext name addDirectories w =
     (if name = [] then (Inl AssertionFailed, w)
      else
        (case exists_st ext name True w of
           (found, w1) \<Rightarrow>
             if found then (Inl AssertionFailed, w1)
             else if UseNewCache (statics w1) then
               (case addEmptyEntry ext (cache_manager (self w1)) name of
                  (ok, cm) \<Rightarrow>
                    let w2 = w1\<lparr>self := (self w1)\<lparr>cache_manager := cm\<rparr>\<rparr> in
                    if \<not> ok then (Inl (Exception UnableToAddEntry), w2) else (Inr (), w2))
             else
               let w2 = set_entry name \<lparr>len = - 1, data = None, clen = - 1, cdata = None\<rparr> w1
               in (Inr (), if addDirectories then writeDirectories_st ext name w2 else w2)))"

definition write_fullpath_st ::
  "'cm externals \<Rightarrow> string \<Rightarrow> string \<Rightarrow> 'cm process \<Rightarrow> (error + unit) \<times> 'cm process" where
  "write_fullpath_st ext name fullpath w =
     (if name = [] \<or> fullpath = [] then (Inl AssertionFailed, w)
      else
        (case exists_st ext name True w of
           (found, w1) \<Rightarrow>
             if found then (Inl AssertionFailed, w1)
             else if UseNewCache (statics w1) then
               (case addFileContents ext (cache_manager (self w1)) name fullpath of
                  (ok, cm) \<Rightarrow>
                    let w2 = w1\<lparr>self := (self w1)\<lparr>cache_manager := cm\<rparr>\<rparr> in
                    if \<not> ok then (Inl (Exception UnableToAddEntry), w2) else (Inr (), w2))
             else
               (case stat ext fullpath of
                  None \<Rightarrow> (Inl (Exception UnableToStat), w1)
                | Some st_size \<Rightarrow>
                    let n = s32 (int st_size);
                        w2 = set_entry name \<lparr>len = n, data = None, clen = - 1, cdata = None\<rparr> w1
                    in
                    if n \<noteq> 0 then
                      (case fopen_r ext fullpath of
                         None \<Rightarrow> (Inl (Exception UnableToOpen), w2)
                       | Some contents \<Rightarrow>
                           if n < 0 then (Inl UndefinedBehaviour, w2)
                           else
                             (case read_bytes \<lparr>rest = contents, eof = False\<rparr> (nat n) of
                                (ok, buf, f) \<Rightarrow>
                                  let raw = \<lparr>len = n, data = Some buf, clen = - 1, cdata = None\<rparr>;
                                      w3 = set_entry name raw w2
                                  in
                                  if \<not> ok then (Inl (Exception UnableToReadAllBytes), w3)
                                  else if is_compressible_file ext name then
                                    (case gzencode ext buf of
                                       Some compressed \<Rightarrow>
                                         let new_len = int (length compressed) in
                                         if new_len < c_div (s32 (n * 3)) 4
                                         then (Inr (), writeDirectories_st ext name
                                                 (set_entry name
                                                    (raw\<lparr>clen := new_len, cdata := Some compressed\<rparr>)
                                                    w3))
                                         else (Inr (), writeDirectories_st ext name w3)
                                     | None \<Rightarrow> (Inr (), writeDirectories_st ext name w3))
                                  else (Inr (), writeDirectories_st ext name w3)))
                    else (Inr (), writeDirectories_st ext name w2))))"

definition save_entry_st ::
  "string \<times> Buffer \<Rightarrow> 'cm process \<Rightarrow> (error + char list) \<times> 'cm process" where
  "save_entry_st file w =
     (let name = fst file; buffer = snd file;
          name_len = s16 (int (length name))
      in
      if name_len = 0 then (Inl AssertionFailed, w)
      else if name_len < 0 then (Inl UndefinedBehaviour, w)
      else
        let head = le_bytes 2 name_len @ take (nat name_len) name in
        (case cdata buffer of
           Some cb \<Rightarrow>
             if clen buffer \<le> 0 then (Inl AssertionFailed, w)
             else if int (length cb) < clen buffer then (Inl UndefinedBehaviour, w)
             else (Inr (head @ [CHR 0x01] @ le_bytes 4 (clen buffer)
                         @ take (nat (clen buffer)) cb @ [NUL]), w)
         | None \<Rightarrow>
             if len buffer > 0 then
               (case data buffer of
                  None \<Rightarrow> (Inl AssertionFailed, w)
                | Some db \<Rightarrow>
                    if int (length db) < len buffer then (Inl UndefinedBehaviour, w)
                    else (Inr (head @ [NUL] @ le_bytes 4 (len buffer)
                                @ take (nat (len buffer)) db @ [NUL]), w))
             else (Inr (head @ [NUL] @ le_bytes 4 (len buffer)), w)))"

fun save_entries_st ::
  "(string \<times> Buffer) list \<Rightarrow> 'cm process \<Rightarrow> (error + char list) \<times> 'cm process" where
  "save_entries_st [] w = (Inr [], w)"
| "save_entries_st (file # files) w =
     (case save_entry_st file w of
        (Inl e, w1) \<Rightarrow> (Inl e, w1)
      | (Inr bs, w1) \<Rightarrow>
          (case save_entries_st files w1 of
             (Inl e, w2) \<Rightarrow> (Inl e, w2)
           | (Inr cs, w2) \<Rightarrow> (Inr (bs @ cs), w2)))"

definition save_st ::
  "'cm externals \<Rightarrow> string \<Rightarrow> 'cm process \<Rightarrow> (error + char list option) \<times> 'cm process" where
  "save_st ext filename w =
     (if filename = [] then (Inl AssertionFailed, w)
      else if UseNewCache (statics w) then
        (if \<not> saveCache ext (cache_manager (self w)) filename
         then (Inl (Exception UnableToSave), w)
         else (Inr None, w))
      else if \<not> fopen_w ext filename then (Inl (Exception UnableToOpen), w)
      else
        (case save_entries_st (m_files (self w)) w of
           (Inl e, w1) \<Rightarrow> (Inl e, w1)
         | (Inr bs, w1) \<Rightarrow>
             (Inr (Some (le_bytes 2 (- 1) @ le_bytes 2 kCurrentFileCacheVersion @ bs)), w1)))"

definition getVersion_st ::
  "'cm externals \<Rightarrow> string \<Rightarrow> 'cm process \<Rightarrow> (error + int) \<times> 'cm process" where
  "getVersion_st ext filename w =
     (if filename = [] then (Inl AssertionFailed, w)
      else if isNewCache ext filename
      then (Inr 2, w\<lparr>statics := (statics w)\<lparr>UseNewCache := True\<rparr>\<rparr>)
      else
        (case fopen_r ext filename of
           None \<Rightarrow> (Inl (Exception UnableToOpen), w)
         | Some contents \<Rightarrow>
             (case read_bytes \<lparr>rest = contents, eof = False\<rparr> 2 of
                (ok, tb, f1) \<Rightarrow>
                  let tag = s16 (le_val (overlay tb (le_bytes 2 (- 1)))) in
                  if \<not> ok \<or> tag > 0 then (Inr (- 1), w)
                  else
                    (case read_bytes f1 2 of
                       (ok2, vb, f2) \<Rightarrow>
                         (Inr (s16 (le_val (overlay vb (le_bytes 2 (- 1))))), w)))))"

text \<open>
  \<^verbatim>\<open>load\<close>: what it does with the payload of a record, one pass of its loop, the loop
  and the function; then the same for \<^verbatim>\<open>loadMmap\<close>, and the constructor.
\<close>

definition load_payload_st ::
  "'cm externals \<Rightarrow> bool \<Rightarrow> string \<Rightarrow> char \<Rightarrow> int \<Rightarrow> char list \<Rightarrow> 'cm process
     \<Rightarrow> (error + unit) \<times> 'cm process" where
  "load_payload_st ext onDemandUncompress file c n db w =
     (if c \<noteq> NUL then
        if onDemandUncompress then
          (Inr (), set_entry file \<lparr>len = - 1, data = None, clen = n, cdata = Some db\<rparr> w)
        else
          (case gzdecode ext (take (nat n) db) of
             None \<Rightarrow>
               (Inl (Exception BadCompressedData),
                set_entry file \<lparr>len = n, data = Some db, clen = - 1, cdata = None\<rparr> w)
           | Some uncompressed \<Rightarrow>
               (Inr (),
                set_entry file
                  \<lparr>len = int (length uncompressed), data = Some uncompressed,
                   clen = n, cdata = Some db\<rparr> w))
      else (Inr (), set_entry file \<lparr>len = n, data = Some db, clen = - 1, cdata = None\<rparr> w))"

definition load_record_st ::
  "'cm externals \<Rightarrow> bool \<Rightarrow> int \<Rightarrow> FILE \<Rightarrow> 'cm process
     \<Rightarrow> (error + FILE option) \<times> 'cm process" where
  "load_record_st ext onDemandUncompress version f w =
     (case read_bytes f 2 of
        (ok1, nb, f1) \<Rightarrow>
          let name_len = s16 (le_val nb) in
          if \<not> ok1 \<or> name_len \<le> 0 then
            (if eof f1 then (Inr None, w) else (Inl (Exception BadFileNameLength), w))
          else
            (case read_bytes f1 (nat name_len) of
               (ok2, file, f2) \<Rightarrow>
                 if \<not> ok2 then (Inl (Exception BadFileName), w)
                 else
                   (case exists_st ext (c_str file) True w of
                      (found, w1) \<Rightarrow>
                        if found then (Inl (Exception (SameFileTwice (c_str file))), w1)
                        else
                          (case read_bytes f2 1 of
                             (ok3, cb, f3) \<Rightarrow>
                               if \<not> ok3 then (Inl (Exception BadDataLength), w1)
                               else
                                 (case read_bytes f3 4 of
                                    (ok4, lb, f4) \<Rightarrow>
                                      if \<not> ok4 then (Inl (Exception BadDataLength), w1)
                                      else
                                        let c = hd cb; n = s32 (le_val lb);
                                            w2 = set_entry file
                                                   \<lparr>len = n, data = None, clen = - 1, cdata = None\<rparr> w1
                                        in
                                        if n > 0 then
                                          if s32 (n + 1) \<le> 0 then (Inl UndefinedBehaviour, w2)
                                          else if version > 0 then
                                            (case read_bytes f4 (nat (n + 1)) of
                                               (ok5, db, f5) \<Rightarrow>
                                                 let w3 = set_entry file
                                                            \<lparr>len = n, data = Some db, clen = - 1,
                                                             cdata = None\<rparr> w2
                                                 in
                                                 if \<not> ok5 then (Inl (Exception BadData), w3)
                                                 else if db ! nat n \<noteq> NUL
                                                 then (Inl AlwaysAssertFailed, w3)
                                                 else
                                                   (case load_payload_st ext onDemandUncompress
                                                           file c n db w2 of
                                                      (Inl e, w4) \<Rightarrow> (Inl e, w4)
                                                    | (Inr u, w4) \<Rightarrow> (Inr (Some f5), w4)))
                                          else
                                            (case read_bytes f4 (nat n) of
                                               (ok5, db, f5) \<Rightarrow>
                                                 if \<not> ok5
                                                 then (Inl (Exception BadData),
                                                       set_entry file
                                                         \<lparr>len = n, data = Some db, clen = - 1,
                                                          cdata = None\<rparr> w2)
                                                 else
                                                   (case load_payload_st ext onDemandUncompress
                                                           file c n (db @ [NUL]) w2 of
                                                      (Inl e, w4) \<Rightarrow> (Inl e, w4)
                                                    | (Inr u, w4) \<Rightarrow> (Inr (Some f5), w4)))
                                        else (Inr (Some f4), w2))))))"

lemma load_record_st_shrinks:
  assumes "load_record_st ext onDemandUncompress version f w = (Inr (Some f'), w')"
  shows "length (rest f') < length (rest f)"
  using assms unfolding load_record_st_def Let_def
  by (auto split: prod.splits if_splits sum.splits dest!: read_bytes_shrinks)

function load_loop_st ::
  "'cm externals \<Rightarrow> bool \<Rightarrow> int \<Rightarrow> FILE \<Rightarrow> 'cm process \<Rightarrow> (error + unit) \<times> 'cm process" where
  "load_loop_st ext onDemandUncompress version f w =
     (case load_record_st ext onDemandUncompress version f w of
        (Inl e, w1) \<Rightarrow> (Inl e, w1)
      | (Inr None, w1) \<Rightarrow> (Inr (), w1)
      | (Inr (Some f'), w1) \<Rightarrow> load_loop_st ext onDemandUncompress version f' w1)"
  by pat_completeness blast
termination
  by (relation "measure (\<lambda>(ext, onDemandUncompress, version, f, w). length (rest f))")
     (auto dest: load_record_st_shrinks [OF sym])

declare load_loop_st.simps [simp del]

definition load_st ::
  "'cm externals \<Rightarrow> string \<Rightarrow> bool \<Rightarrow> int \<Rightarrow> 'cm process \<Rightarrow> (error + unit) \<times> 'cm process" where
  "load_st ext filename onDemandUncompress version w =
     (if filename = [] then (Inl AssertionFailed, w)
      else if UseNewCache (statics w) then (Inl (Exception NonMmapLoadNotSupported), w)
      else
        (case fopen_r ext filename of
           None \<Rightarrow> (Inl (Exception UnableToOpen), w)
         | Some contents \<Rightarrow>
             let f0 = \<lparr>rest = contents, eof = False\<rparr>;
                 f = (if version > 0
                      then snd (snd (read_bytes (snd (snd (read_bytes f0 2))) 2))
                      else f0)
             in load_loop_st ext onDemandUncompress version f w))"

definition loadMmap_record_st ::
  "'cm externals \<Rightarrow> char list \<Rightarrow> nat \<Rightarrow> nat \<Rightarrow> 'cm process \<Rightarrow> (error + nat) \<times> 'cm process" where
  "loadMmap_record_st ext region e p w =
     (case read_bytes_mem region p e 2 of
        Inl er \<Rightarrow> (Inl er, w)
      | Inr (ok1, nb, p1) \<Rightarrow>
          let name_len = s16 (le_val (overlay nb (le_bytes 2 (- 1)))) in
          if \<not> ok1 \<or> name_len \<le> 0 then (Inl (Exception BadFileNameLength), w)
          else
            (case read_bytes_mem region p1 e (nat name_len) of
               Inl er \<Rightarrow> (Inl er, w)
             | Inr (ok2, file, p2) \<Rightarrow>
                 if \<not> ok2 then (Inl (Exception BadFileName), w)
                 else
                   (case exists_st ext (c_str file) True w of
                      (found, w1) \<Rightarrow>
                        if found then (Inl (Exception (SameFileTwice (c_str file))), w1)
                        else
                          (case read_bytes_mem region p2 e 1 of
                             Inl er \<Rightarrow> (Inl er, w1)
                           | Inr (ok3, cb, p3) \<Rightarrow>
                               if \<not> ok3 then (Inl (Exception BadDataLength), w1)
                               else
                                 (case read_bytes_mem region p3 e 4 of
                                    Inl er \<Rightarrow> (Inl er, w1)
                                  | Inr (ok4, lb, p4) \<Rightarrow>
                                      if \<not> ok4 then (Inl (Exception BadDataLength), w1)
                                      else
                                        let c = hd cb; n = s32 (le_val lb);
                                            w2 = set_entry file
                                                   \<lparr>len = n, data = None, clen = - 1, cdata = None\<rparr> w1
                                        in
                                        if n > 0 then
                                          if int p4 + n \<ge> int e then (Inl (Exception BadData), w2)
                                          else
                                            let w3 = set_entry file
                                                       \<lparr>len = n, data = Some (drop p4 region),
                                                        clen = - 1, cdata = None\<rparr> w2;
                                                p5 = p4 + nat n
                                            in
                                            (case memcpy region p5 1 of
                                               Inl er \<Rightarrow> (Inl er, w3)
                                             | Inr z \<Rightarrow>
                                                 if hd z \<noteq> NUL then (Inl AlwaysAssertFailed, w3)
                                                 else if c \<noteq> NUL then
                                                   (Inr (p5 + 1),
                                                    set_entry file
                                                      \<lparr>len = - 1, data = None, clen = n,
                                                       cdata = Some (drop p4 region)\<rparr> w3)
                                                 else (Inr (p5 + 1), w3))
                                        else (Inr p4, w2))))))"

lemma loadMmap_record_st_advances:
  assumes "loadMmap_record_st ext region e p w = (Inr p', w')"
  shows "p < p'"
  using assms unfolding loadMmap_record_st_def Let_def read_bytes_mem_def
  by (auto split: prod.splits if_splits sum.splits)

function loadMmap_loop_st ::
  "'cm externals \<Rightarrow> char list \<Rightarrow> nat \<Rightarrow> nat \<Rightarrow> 'cm process \<Rightarrow> (error + unit) \<times> 'cm process" where
  "loadMmap_loop_st ext region e p w =
     (if p < e then
        (case loadMmap_record_st ext region e p w of
           (Inl er, w1) \<Rightarrow> (Inl er, w1)
         | (Inr p', w1) \<Rightarrow> loadMmap_loop_st ext region e p' w1)
      else (Inr (), w))"
  by pat_completeness blast
termination
  by (relation "measure (\<lambda>(ext, region, e, p, w). e - p)")
     (auto dest!: loadMmap_record_st_advances [OF sym])

declare loadMmap_loop_st.simps [simp del]

definition adviseOutMemory_st :: "'cm process \<Rightarrow> 'cm process" where
  "adviseOutMemory_st w = (if UseNewCache (statics w) then w else w)"

definition loadMmap_st ::
  "'cm externals \<Rightarrow> string \<Rightarrow> int \<Rightarrow> 'cm process \<Rightarrow> (error + unit) \<times> 'cm process" where
  "loadMmap_st ext filename version w =
     (if filename = [] then (Inl AssertionFailed, w)
      else
        let w1 = (if isNewCache ext filename
                  then w\<lparr>statics := (statics w)\<lparr>UseNewCache := True\<rparr>\<rparr> else w)
        in
        if UseNewCache (statics w1) then
          (case loadCache ext (cache_manager (self w1)) filename of
             (ok, cm) \<Rightarrow>
               let w2 = w1\<lparr>self := (self w1)\<lparr>cache_manager := cm\<rparr>\<rparr> in
               if \<not> ok then (Inl (Exception UnableToLoadCache), w2) else (Inr (), w2))
        else if \<not> version > 0 then (Inl AlwaysAssertFailed, w1)
        else
          (case stat ext filename of
             None \<Rightarrow> (Inl (Exception UnableToStat), w1)
           | Some st_size \<Rightarrow>
               let fd = open_rdonly ext filename;
                   w2 = w1\<lparr>self := (self w1)\<lparr>m_fd := fd\<rparr>\<rparr>
               in
               if fd = - 1 then (Inl (Exception UnableToOpen), w2)
               else
                 (case mmap ext fd st_size of
                    None \<Rightarrow> (Inl (Exception UnableToMmap), w2\<lparr>self := (self w2)\<lparr>m_addr := None\<rparr>\<rparr>)
                  | Some region \<Rightarrow>
                      let w3 = w2\<lparr>self := (self w2)\<lparr>m_addr := Some region, m_size := st_size\<rparr>\<rparr>
                      in
                      (case loadMmap_loop_st ext region st_size 4 w3 of
                         (Inl er, w4) \<Rightarrow> (Inl er, w4)
                       | (Inr u, w4) \<Rightarrow> (Inr (), adviseOutMemory_st w4)))))"

definition FileCache_st :: "'cm \<Rightarrow> 'cm process \<Rightarrow> 'cm process" where
  "FileCache_st cm w =
     w\<lparr>self := \<lparr>m_fd = - 1, m_size = 0, m_addr = None, m_files = [], cache_manager = cm\<rparr>\<rparr>"

text \<open>
  The operations of the class, and the state of the process after one of them, whether it
  returns or throws.
\<close>

datatype 'cm operation =
    Construct 'cm
  | Write_name string bool
  | Write_fullpath string string
  | Save string
  | GetVersion string
  | Load string bool int
  | LoadMmap string int
  | AdviseOutMemory
  | FileExists string bool
  | DirExists string bool
  | Exists string bool
  | Read string int bool
  | FileSize string bool

fun run :: "'cm externals \<Rightarrow> 'cm operation \<Rightarrow> 'cm process \<Rightarrow> 'cm process" where
  "run ext (Construct cm) w = FileCache_st cm w"
| "run ext (Write_name name addDirectories) w = snd (write_name_st ext name addDirectories w)"
| "run ext (Write_fullpath name fullpath) w = snd (write_fullpath_st ext name fullpath w)"
| "run ext (Save filename) w = snd (save_st ext filename w)"
| "run ext (GetVersion filename) w = snd (getVersion_st ext filename w)"
| "run ext (Load filename onDemandUncompress version) w =
     snd (load_st ext filename onDemandUncompress version w)"
| "run ext (LoadMmap filename version) w = snd (loadMmap_st ext filename version w)"
| "run ext AdviseOutMemory w = adviseOutMemory_st w"
| "run ext (FileExists name isRelative) w = snd (fileExists_st ext name isRelative w)"
| "run ext (DirExists name isRelative) w = snd (dirExists_st ext name isRelative w)"
| "run ext (Exists name isRelative) w = snd (exists_st ext name isRelative w)"
| "run ext (Read name n0 compressed0) w = snd (read_st ext name n0 compressed0 w)"
| "run ext (FileSize name isRelative) w = snd (fileSize_st ext name isRelative w)"

subsection \<open>A test environment\<close>

text \<open>
  An environment to run the model in: a file system given by \<open>files\<close>, no alternate
  backend, every file compressible, and run-length encoding as the codec.
\<close>

fun rle_encode :: "char list \<Rightarrow> char list" where
  "rle_encode [] = []"
| "rle_encode (c # cs) =
     (case rle_encode cs of
        k # d # r \<Rightarrow>
          if d = c \<and> (of_char k :: nat) < 255 then char_of (of_char k + 1 :: nat) # d # r
          else CHR 0x01 # c # k # d # r
      | _ \<Rightarrow> [CHR 0x01, c])"

fun rle_decode :: "char list \<Rightarrow> char list option" where
  "rle_decode [] = Some []"
| "rle_decode [k] = None"
| "rle_decode (k # c # r) = map_option ((@) (replicate (of_char k) c)) (rle_decode r)"

definition test_env :: "(string \<Rightarrow> char list option) \<Rightarrow> unit externals" where
  "test_env files =
     \<lparr>stat = (\<lambda>p. map_option length (files p)),
      fopen_r = files,
      fopen_w = (\<lambda>p. True),
      open_rdonly = (\<lambda>p. if files p = None then - 1 else 3),
      mmap = (\<lambda>fd n. files ''archive''),
      is_compressible_file = (\<lambda>name. True),
      gzencode = (\<lambda>bs. Some (rle_encode bs)),
      gzdecode = rle_decode,
      isNewCache = (\<lambda>p. False),
      addEmptyEntry = (\<lambda>cm name. (False, cm)),
      addFileContents = (\<lambda>cm name fullpath. (False, cm)),
      saveCache = (\<lambda>cm p. False),
      loadCache = (\<lambda>cm p. (False, cm)),
      entryExists = (\<lambda>cm name. False),
      cm_fileExists = (\<lambda>cm name. False),
      cm_dirExists = (\<lambda>cm name. False),
      emptyEntryExists = (\<lambda>cm name. False),
      getFileContents = (\<lambda>cm name. None),
      getUncompressedFileSize = (\<lambda>cm name. None)\<rparr>"

definition g0 :: globals where
  "g0 = \<lparr>SourceRoot = [], UseNewCache = False\<rparr>"


text \<open>The same with a file of \<open>S\<close> bytes and a codec that returns \<open>C\<close> bytes.\<close>

definition gate_env :: "nat \<Rightarrow> nat \<Rightarrow> unit externals" where
  "gate_env S C =
     (test_env (\<lambda>p. Some (replicate S (CHR ''x''))))
       \<lparr>gzencode := (\<lambda>bs. Some (replicate C (CHR ''z'')))\<rparr>"

subsection \<open>Builds\<close>

text \<open>
  A build is a sequence of calls of the two \<^verbatim>\<open>write\<close> functions on one instance; it stops
  at the first call that fails.
\<close>

datatype registration = Placeholder string bool | StaticFile string string

fun reg_name :: "registration \<Rightarrow> string" where
  "reg_name (Placeholder name addDirectories) = name"
| "reg_name (StaticFile name fullpath) = name"

fun register ::
  "'cm externals \<Rightarrow> globals \<Rightarrow> 'cm FileCache \<Rightarrow> registration
     \<Rightarrow> (error \<times> 'cm FileCache) + 'cm FileCache" where
  "register ext g t (Placeholder name addDirectories) = write_name ext g t name addDirectories"
| "register ext g t (StaticFile name fullpath) = write_fullpath ext g t name fullpath"

fun register_all ::
  "'cm externals \<Rightarrow> globals \<Rightarrow> 'cm FileCache \<Rightarrow> registration list
     \<Rightarrow> (error \<times> 'cm FileCache) + 'cm FileCache" where
  "register_all ext g t [] = Inr t"
| "register_all ext g t (r # rs) =
     (case register ext g t r of
        Inl e \<Rightarrow> Inl e
      | Inr t' \<Rightarrow> register_all ext g t' rs)"


subsection \<open>Test archives\<close>

text \<open>
  Two archives: one whose two records carry the same name, the two bytes \<open>a\<close> and
  NUL (a placeholder, then a directory); and one whose only record declares a payload
  of 5 bytes and ends after 2.
\<close>

definition archive_dup :: "char list" where
  "archive_dup =
     [CHR 0xFF, CHR 0xFF, CHR 0x01, CHR 0x00,
      CHR 0x02, CHR 0x00, CHR ''a'', CHR 0x00, CHR 0x00, CHR 0xFF, CHR 0xFF, CHR 0xFF, CHR 0xFF,
      CHR 0x02, CHR 0x00, CHR ''a'', CHR 0x00, CHR 0x00, CHR 0xFE, CHR 0xFF, CHR 0xFF, CHR 0xFF]"

definition archive_truncated :: "char list" where
  "archive_truncated =
     [CHR 0xFF, CHR 0xFF, CHR 0x01, CHR 0x00,
      CHR 0x01, CHR 0x00, CHR ''a'', CHR 0x00, CHR 0x05, CHR 0x00, CHR 0x00, CHR 0x00,
      CHR ''h'', CHR ''i'']"

text \<open>
  A build of a placeholder, a file of sixteen bytes \<open>a\<close> and an empty file; the table it
  makes, the archive \<^verbatim>\<open>save\<close> writes for it, and the table \<^verbatim>\<open>load\<close> makes of that
  archive when it defers decompression.
\<close>

definition example_files :: "string \<Rightarrow> char list option" where
  "example_files p =
     (if p = ''/src/a.txt'' then Some ''aaaaaaaaaaaaaaaa''
      else if p = ''/src/e'' then Some []
      else None)"

definition example_regs :: "registration list" where
  "example_regs =
     [Placeholder ''app.php'' True,
      StaticFile ''d/a.txt'' ''/src/a.txt'',
      StaticFile ''d/e/empty'' ''/src/e'']"

definition example_table :: "unit FileCache" where
  "example_table =
     \<lparr>m_fd = - 1, m_size = 0, m_addr = None,
      m_files =
        [(''app.php'', \<lparr>len = - 1, data = None, clen = - 1, cdata = None\<rparr>),
         (''d/a.txt'', \<lparr>len = 16, data = Some ''aaaaaaaaaaaaaaaa'', clen = 2,
                        cdata = Some [CHR 0x10, CHR ''a'']\<rparr>),
         (''d'', \<lparr>len = - 2, data = None, clen = - 2, cdata = None\<rparr>),
         (''d/e/empty'', \<lparr>len = 0, data = None, clen = - 1, cdata = None\<rparr>),
         (''d/e'', \<lparr>len = - 2, data = None, clen = - 2, cdata = None\<rparr>)],
      cache_manager = ()\<rparr>"

definition example_archive :: "char list" where
  "example_archive =
     [CHR 0xFF, CHR 0xFF, CHR 0x01, CHR 0x00,
      CHR 0x07, CHR 0x00, CHR ''a'', CHR ''p'', CHR ''p'', CHR ''.'', CHR ''p'', CHR ''h'', CHR ''p'',
      CHR 0x00, CHR 0xFF, CHR 0xFF, CHR 0xFF, CHR 0xFF,
      CHR 0x07, CHR 0x00, CHR ''d'', CHR ''/'', CHR ''a'', CHR ''.'', CHR ''t'', CHR ''x'', CHR ''t'',
      CHR 0x01, CHR 0x02, CHR 0x00, CHR 0x00, CHR 0x00, CHR 0x10, CHR ''a'', CHR 0x00,
      CHR 0x01, CHR 0x00, CHR ''d'',
      CHR 0x00, CHR 0xFE, CHR 0xFF, CHR 0xFF, CHR 0xFF,
      CHR 0x09, CHR 0x00, CHR ''d'', CHR ''/'', CHR ''e'', CHR ''/'', CHR ''e'', CHR ''m'', CHR ''p'',
      CHR ''t'', CHR ''y'',
      CHR 0x00, CHR 0x00, CHR 0x00, CHR 0x00, CHR 0x00,
      CHR 0x03, CHR 0x00, CHR ''d'', CHR ''/'', CHR ''e'',
      CHR 0x00, CHR 0xFE, CHR 0xFF, CHR 0xFF, CHR 0xFF]"

definition example_deferred :: "unit FileCache" where
  "example_deferred =
     \<lparr>m_fd = - 1, m_size = 0, m_addr = None,
      m_files =
        [(''app.php'', \<lparr>len = - 1, data = None, clen = - 1, cdata = None\<rparr>),
         (''d/a.txt'', \<lparr>len = - 1, data = None, clen = 2,
                        cdata = Some [CHR 0x10, CHR ''a'', CHR 0x00]\<rparr>),
         (''d'', \<lparr>len = - 2, data = None, clen = - 1, cdata = None\<rparr>),
         (''d/e/empty'', \<lparr>len = 0, data = None, clen = - 1, cdata = None\<rparr>),
         (''d/e'', \<lparr>len = - 2, data = None, clen = - 1, cdata = None\<rparr>)],
      cache_manager = ()\<rparr>"

text \<open>
  A build of the file \<open>d/a.txt\<close> alone, with its table, the archive \<^verbatim>\<open>save\<close> writes for
  it and the table \<^verbatim>\<open>load\<close> makes of that archive when it defers decompression.
\<close>

definition file_regs :: "registration list" where
  "file_regs = [StaticFile ''d/a.txt'' ''/src/a.txt'']"

definition file_table :: "unit FileCache" where
  "file_table =
     \<lparr>m_fd = - 1, m_size = 0, m_addr = None,
      m_files =
        [(''d/a.txt'', \<lparr>len = 16, data = Some ''aaaaaaaaaaaaaaaa'', clen = 2,
                        cdata = Some [CHR 0x10, CHR ''a'']\<rparr>),
         (''d'', \<lparr>len = - 2, data = None, clen = - 2, cdata = None\<rparr>)],
      cache_manager = ()\<rparr>"

definition file_archive :: "char list" where
  "file_archive =
     [CHR 0xFF, CHR 0xFF, CHR 0x01, CHR 0x00,
      CHR 0x07, CHR 0x00, CHR ''d'', CHR ''/'', CHR ''a'', CHR ''.'', CHR ''t'', CHR ''x'', CHR ''t'',
      CHR 0x01, CHR 0x02, CHR 0x00, CHR 0x00, CHR 0x00, CHR 0x10, CHR ''a'', CHR 0x00,
      CHR 0x01, CHR 0x00, CHR ''d'',
      CHR 0x00, CHR 0xFE, CHR 0xFF, CHR 0xFF, CHR 0xFF]"

definition file_deferred :: "unit FileCache" where
  "file_deferred =
     \<lparr>m_fd = - 1, m_size = 0, m_addr = None,
      m_files =
        [(''d/a.txt'', \<lparr>len = - 1, data = None, clen = 2,
                        cdata = Some [CHR 0x10, CHR ''a'', CHR 0x00]\<rparr>),
         (''d'', \<lparr>len = - 2, data = None, clen = - 1, cdata = None\<rparr>)],
      cache_manager = ()\<rparr>"

text \<open>
  The tables after \<open>a/b/c\<close> has been registered in a new instance, as a placeholder and
  as the file of sixteen bytes; and the table in which \<open>a\<close> is a placeholder.
\<close>

definition abc_placeholder :: "unit FileCache" where
  "abc_placeholder =
     (FileCache_new ())\<lparr>m_files :=
        [(''a/b/c'', \<lparr>len = - 1, data = None, clen = - 1, cdata = None\<rparr>),
         (''a'', directory_buffer), (''a/b'', directory_buffer)]\<rparr>"

definition abc_file :: "unit FileCache" where
  "abc_file =
     (FileCache_new ())\<lparr>m_files :=
        [(''a/b/c'', \<lparr>len = 16, data = Some ''aaaaaaaaaaaaaaaa'', clen = 2,
                      cdata = Some [CHR 0x10, CHR ''a'']\<rparr>),
         (''a'', directory_buffer), (''a/b'', directory_buffer)]\<rparr>"

definition a_placeholder :: "unit FileCache" where
  "a_placeholder =
     (FileCache_new ())\<lparr>m_files :=
        [(''a'', \<lparr>len = - 1, data = None, clen = - 1, cdata = None\<rparr>)]\<rparr>"

subsection \<open>Vocabulary of the properties\<close>

text \<open>
  The directories \<^verbatim>\<open>writeDirectories\<close> looks at for a name: its prefixes that end before
  a slash which is not the first character. \<open>file_buffer\<close> is an entry as
  \<^verbatim>\<open>write(name, fullpath)\<close> stores it.
\<close>

definition dir_prefixes :: "string \<Rightarrow> string list" where
  "dir_prefixes name = [take j name. j \<leftarrow> [1..<length name], name ! j = CHR ''/'']"

definition placeholder_buffer :: Buffer where
  "placeholder_buffer = \<lparr>len = - 1, data = None, clen = - 1, cdata = None\<rparr>"

definition file_buffer :: "'cm externals \<Rightarrow> Buffer \<Rightarrow> bool" where
  "file_buffer ext b \<longleftrightarrow>
     (len b = 0 \<and> data b = None \<and> clen b = - 1 \<and> cdata b = None) \<or>
     (0 < len b \<and> (\<exists>raw. data b = Some raw \<and> int (length raw) = len b \<and>
        ((clen b = - 1 \<and> cdata b = None) \<or>
         (\<exists>c. cdata b = Some c \<and> clen b = int (length c) \<and> gzencode ext raw = Some c \<and>
              clen b < c_div (s32 (len b * 3)) 4))))"


text \<open>
  An entry as a build makes it (\<open>entry_ok\<close>), and a table of such entries with unique
  keys.
\<close>

definition entry_ok :: "'cm externals \<Rightarrow> string \<Rightarrow> Buffer \<Rightarrow> bool" where
  "entry_ok ext name b \<longleftrightarrow>
     name \<noteq> [] \<and> NUL \<notin> set name \<and> length name < 32768 \<and>
     (b = directory_buffer \<or> b = placeholder_buffer \<or> file_buffer ext b)"

definition table_ok :: "'cm externals \<Rightarrow> 'cm FileCache \<Rightarrow> bool" where
  "table_ok ext t \<longleftrightarrow>
     distinct (map fst (m_files t)) \<and>
     (\<forall>k b. map_of (m_files t) k = Some b \<longrightarrow> entry_ok ext k b)"

text \<open>
  \<open>reloaded\<close> is the entry that \<^verbatim>\<open>load\<close>, decompressing at once, makes of the record that
  \<^verbatim>\<open>save\<close> wrote for an entry; \<open>reload_ok\<close> adds to \<open>entry_ok\<close> what that needs: a
  length below the largest \<^verbatim>\<open>int\<close>, and a compressed form that is not empty and that the
  codec decodes to the raw bytes.
\<close>

definition reloaded :: "'cm externals \<Rightarrow> Buffer \<Rightarrow> Buffer" where
  "reloaded ext b =
     (case cdata b of
        Some cb \<Rightarrow>
          (let stored = take (nat (clen b)) cb; out = gzdecode ext stored in
           \<lparr>len = (case out of Some u \<Rightarrow> int (length u) | None \<Rightarrow> 0), data = out,
            clen = clen b, cdata = Some (stored @ [NUL])\<rparr>)
      | None \<Rightarrow>
          \<lparr>len = len b,
           data = (if 0 < len b then map_option (\<lambda>raw. take (nat (len b)) raw @ [NUL]) (data b)
                   else None),
           clen = - 1, cdata = None\<rparr>)"

definition reload_ok :: "'cm externals \<Rightarrow> string \<Rightarrow> Buffer \<Rightarrow> bool" where
  "reload_ok ext name b \<longleftrightarrow>
     entry_ok ext name b \<and> len b < 2147483647 \<and>
     (\<forall>cb. cdata b = Some cb \<longrightarrow> cb \<noteq> [] \<and> gzdecode ext cb = data b)"

text \<open>
  \<open>reloaded_as\<close> is the same for either mode of \<^verbatim>\<open>load\<close>: when decompression is deferred,
  an entry with a compressed form comes back with that form only.
\<close>

definition reloaded_as :: "bool \<Rightarrow> 'cm externals \<Rightarrow> Buffer \<Rightarrow> Buffer" where
  "reloaded_as onDemandUncompress ext b =
     (case cdata b of
        Some cb \<Rightarrow>
          if onDemandUncompress
          then \<lparr>len = - 1, data = None, clen = clen b,
                cdata = Some (take (nat (clen b)) cb @ [NUL])\<rparr>
          else reloaded ext b
      | None \<Rightarrow> reloaded ext b)"

text \<open>
  What a caller can read through the pointer and the length that \<^verbatim>\<open>read\<close> returns: the
  first \<open>len\<close> bytes at the pointer.
\<close>

definition bytes_read ::
  "error + (char list option \<times> int \<times> bool) \<Rightarrow> error + (char list option \<times> int \<times> bool)" where
  "bytes_read r =
     (case r of
        Inl e \<Rightarrow> Inl e
      | Inr (p, n, c) \<Rightarrow> Inr (map_option (take (nat n)) p, n, c))"

text \<open>
  The tables an instance can hold: the constructor's, and the one any of the operations
  that change the instance leaves, whether it returns or throws. \<open>buffer_inv\<close> is what
  every entry of such a table satisfies: a raw data pointer goes with a positive length
  or a compressed form, and a compressed form without raw data has a positive length.
\<close>

definition buffer_inv :: "Buffer \<Rightarrow> bool" where
  "buffer_inv b \<longleftrightarrow>
     (data b \<noteq> None \<longrightarrow> 0 < len b \<or> cdata b \<noteq> None) \<and>
     (cdata b \<noteq> None \<and> data b = None \<longrightarrow> 0 < clen b)"

definition table_inv :: "'cm FileCache \<Rightarrow> bool" where
  "table_inv t \<longleftrightarrow> (\<forall>b \<in> snd ` set (m_files t). buffer_inv b)"

fun state_after :: "(error \<times> 's) + 's \<Rightarrow> 's" where
  "state_after (Inl (e, t)) = t"
| "state_after (Inr t) = t"

inductive reachable :: "'cm FileCache \<Rightarrow> bool" where
  new: "reachable (FileCache_new cm)"
| write_name:
    "reachable t \<Longrightarrow> reachable (state_after (write_name ext g t name addDirectories))"
| write_fullpath:
    "reachable t \<Longrightarrow> reachable (state_after (write_fullpath ext g t name fullpath))"
| load:
    "reachable t \<Longrightarrow>
     reachable (state_after (load ext g t filename onDemandUncompress version))"
| loadMmap:
    "reachable t \<Longrightarrow> reachable (state_after (snd (loadMmap ext g t filename version)))"

text \<open>
  The state of the process with the instance replaced, and the outcome of an operation of
  the first embedding as an outcome on the state of the process.
\<close>

definition with_self :: "'cm process \<Rightarrow> 'cm FileCache \<Rightarrow> 'cm process" where
  "with_self w t = w\<lparr>self := t\<rparr>"

definition lift_st ::
  "(error \<times> 'cm FileCache) + 'cm FileCache \<Rightarrow> 'cm process \<Rightarrow> (error + unit) \<times> 'cm process" where
  "lift_st r w = (case r of Inl (e, t) \<Rightarrow> (Inl e, with_self w t) | Inr t \<Rightarrow> (Inr (), with_self w t))"

section \<open>Properties\<close>

subsection \<open>Integers, bytes and directories\<close>

lemma le_bytes_2: "le_bytes 2 x = [char_of x, char_of (x div 256)]"
  by (simp add: numeral_2_eq_2)



lemma s32_id: "- 2147483648 \<le> x \<Longrightarrow> x < 2147483648 \<Longrightarrow> s32 x = x"
  by (simp add: s32_def)

lemma s32_le: "0 \<le> x \<Longrightarrow> s32 x \<le> x"
proof -
  assume "0 \<le> x"
  then have "(x + 2147483648) mod 4294967296 \<le> x + 2147483648"
    by (intro zmod_le_nonneg_dividend) simp
  then show ?thesis
    by (simp add: s32_def)
qed

lemma writeDirectories_from_other:
  "length sname \<le> length k \<Longrightarrow>
   map_of (m_files (writeDirectories_from ext g sname i t)) k = map_of (m_files t) k"
proof (induction ext g sname i t rule: writeDirectories_from.induct)
  case (1 ext g sname i t)
  show ?case
  proof (cases "int i < s32 (int (length sname))")
    case True
    then have i: "i < length sname"
      using s32_le [of "int (length sname)"] by simp
    with "1.prems" have ne: "take i sname \<noteq> k"
      by auto
    show ?thesis
      using True "1.IH" [OF True "1.prems"] ne
      by (subst writeDirectories_from.simps) (simp add: Let_def update_conv')
  next
    case False
    then show ?thesis
      by (subst writeDirectories_from.simps) simp
  qed
qed

lemma writeDirectories_self:
  "map_of (m_files (writeDirectories ext g name t)) name = map_of (m_files t) name"
  by (simp add: writeDirectories_def writeDirectories_from_other)

lemma c_str_id: "NUL \<notin> set s \<Longrightarrow> c_str s = s"
  by (auto simp add: c_str_def takeWhile_eq_all_conv)

lemma exists_rel:
  "\<not> UseNewCache g \<Longrightarrow>
   exists ext g t name True \<longleftrightarrow> name \<noteq> [] \<and> map_of (m_files t) name \<noteq> None"
  by (simp add: exists_def)

lemma writeDirectories_from_lookup:
  "\<not> UseNewCache g \<Longrightarrow> NUL \<notin> set sname \<Longrightarrow> length sname < 2147483648 \<Longrightarrow> 0 < i \<Longrightarrow>
   map_of (m_files (writeDirectories_from ext g sname i t)) k =
     (if k \<in> set [take j sname. j \<leftarrow> [i..<length sname], sname ! j = CHR ''/'']
         \<and> map_of (m_files t) k = None
      then Some directory_buffer else map_of (m_files t) k)"
proof (induction ext g sname i t rule: writeDirectories_from.induct)
  case (1 ext g sname i t)
  have s: "s32 (int (length sname)) = int (length sname)"
    using "1.prems" by (simp add: s32_id)
  show ?case
  proof (cases "i < length sname")
    case True
    then have c: "int i < s32 (int (length sname))"
      by (simp add: s)
    have ne: "take i sname \<noteq> []"
      using True "1.prems" by auto
    have cs: "c_str (take i sname) = take i sname"
      using "1.prems" by (intro c_str_id) (auto dest: in_set_takeD)
    have up: "[i..<length sname] = i # [Suc i..<length sname]"
      using True by (simp add: upt_conv_Cons)
    note IH = "1.IH" [OF c "1.prems"(1-3), simplified]
    show ?thesis
      using "1.prems"(1) ne
      by (subst writeDirectories_from.simps, simp only: c if_True IH)
         (simp add: up cs exists_rel Let_def update_conv')
  next
    case False
    then show ?thesis
      by (subst writeDirectories_from.simps) (simp add: s)
  qed
qed

lemma writeDirectories_lookup:
  "\<not> UseNewCache g \<Longrightarrow> NUL \<notin> set name \<Longrightarrow> length name < 2147483648 \<Longrightarrow>
   map_of (m_files (writeDirectories ext g name t)) k =
     (if k \<in> set (dir_prefixes name) \<and> map_of (m_files t) k = None
      then Some directory_buffer else map_of (m_files t) k)"
  by (simp add: writeDirectories_def dir_prefixes_def writeDirectories_from_lookup)

lemma dir_prefixes_abc: "dir_prefixes ''a/b/c'' = [''a'', ''a/b'']"
  by (simp add: dir_prefixes_def upt_rec [of 1] upt_rec [of 2] upt_rec [of 3] upt_rec [of 4] upt_rec[of 5])


lemma write_fullpath_success:
  assumes g: "\<not> UseNewCache g" and w: "write_fullpath ext g t name fullpath = Inr t'"
  shows "\<exists>b. file_buffer ext b \<and> name \<noteq> [] \<and> \<not> exists ext g t name True \<and>
           t' = writeDirectories ext g name (t\<lparr>m_files := AList.update name b (m_files t)\<rparr>)"
proof -
  from w have ne: "name \<noteq> []" and fne: "fullpath \<noteq> []"
    and nex: "\<not> exists ext g t name True"
    by (auto simp: write_fullpath_def split: if_splits)
  from w g ne fne nex obtain st_size where st: "stat ext fullpath = Some st_size"
    by (cases "stat ext fullpath") (auto simp: write_fullpath_def split: if_splits)
  define n where "n = s32 (int st_size)"
  show ?thesis
  proof (cases "n = 0")
    case True
    with w g ne fne nex st have "t' = writeDirectories ext g name
        (t\<lparr>m_files := AList.update name \<lparr>len = 0, data = None, clen = - 1, cdata = None\<rparr> (m_files t)\<rparr>)"
      by (auto simp: write_fullpath_def n_def split: if_splits)
    then show ?thesis
      using ne nex by (intro exI [of _ "\<lparr>len = 0, data = None, clen = - 1, cdata = None\<rparr>"])
        (simp add: file_buffer_def)
  next
    case False
    with w g ne fne nex st obtain contents where fo: "fopen_r ext fullpath = Some contents"
      by (cases "fopen_r ext fullpath") (auto simp: write_fullpath_def n_def Let_def split: if_splits)
    from w g ne fne nex st False fo have pos: "0 < n"
      by (auto simp: write_fullpath_def n_def Let_def split: if_splits)
    from w g ne fne nex st False fo pos have ok: "nat n \<le> length contents"
      by (auto simp: write_fullpath_def n_def [symmetric] Let_def read_bytes_eq split: if_splits)
    define buf where "buf = take (nat n) contents"
    define raw where "raw = \<lparr>len = n, data = Some buf, clen = - 1, cdata = None\<rparr>"
    have rb: "read_bytes \<lparr>rest = contents, eof = False\<rparr> (nat n) =
        (True, buf, \<lparr>rest = drop (nat n) contents, eof = False\<rparr>)"
      using pos ok by (simp add: read_bytes_eq buf_def)
    have lb: "int (length buf) = n"
      using pos ok by (simp add: buf_def)
    have fr: "file_buffer ext raw"
      using pos lb by (simp add: file_buffer_def raw_def)
    note facts = w g ne fne nex st False fo pos
    have goal: "file_buffer ext b \<Longrightarrow>
        t' = writeDirectories ext g name (t\<lparr>m_files := AList.update name b (m_files t)\<rparr>) \<Longrightarrow>
        ?thesis" for b
      using ne nex by blast
    show ?thesis
    proof (cases "is_compressible_file ext name")
      case c: True
      show ?thesis
      proof (cases "gzencode ext buf")
        case None
        have "t' = writeDirectories ext g name (t\<lparr>m_files := AList.update name raw (m_files t)\<rparr>)"
          using facts c None
          by (simp add: write_fullpath_def n_def [symmetric] Let_def rb raw_def)
        with fr show ?thesis
          by (rule goal)
      next
        case (Some compressed)
        show ?thesis
        proof (cases "int (length compressed) < c_div (s32 (n * 3)) 4")
          case True
          have "file_buffer ext (raw\<lparr>clen := int (length compressed), cdata := Some compressed\<rparr>)"
            using pos lb True Some by (simp add: file_buffer_def raw_def)
          moreover have "t' = writeDirectories ext g name
              (t\<lparr>m_files := AList.update name
                 (raw\<lparr>clen := int (length compressed), cdata := Some compressed\<rparr>) (m_files t)\<rparr>)"
            using facts c Some True
            by (simp add: write_fullpath_def n_def [symmetric] Let_def rb raw_def)
          ultimately show ?thesis
            by (rule goal)
        next
          case nlt: False
          have "t' = writeDirectories ext g name (t\<lparr>m_files := AList.update name raw (m_files t)\<rparr>)"
            using facts c Some nlt
            by (simp add: write_fullpath_def n_def [symmetric] Let_def rb raw_def)
          with fr show ?thesis
            by (rule goal)
        qed
      qed
    next
      case nc: False
      have "t' = writeDirectories ext g name (t\<lparr>m_files := AList.update name raw (m_files t)\<rparr>)"
        using facts nc
        by (simp add: write_fullpath_def n_def [symmetric] Let_def rb raw_def)
      with fr show ?thesis
        by (rule goal)
    qed
  qed
qed

lemma write_fullpath_returns:
  assumes g: "\<not> UseNewCache g" and ne: "name \<noteq> []" "fullpath \<noteq> []"
    and nex: "\<not> exists ext g t name True"
    and st: "stat ext fullpath = Some S" and S: "S < 2147483648"
    and rd: "0 < S \<longrightarrow> (\<exists>contents. fopen_r ext fullpath = Some contents \<and> S \<le> length contents)"
  shows "\<exists>t'. write_fullpath ext g t name fullpath = Inr t'"
proof (cases "S = 0")
  case True
  then show ?thesis
    using g ne nex st by (simp add: write_fullpath_def s32_def)
next
  case False
  with rd obtain contents where fo: "fopen_r ext fullpath = Some contents"
    and le: "S \<le> length contents"
    by auto
  have n: "s32 (int S) = int S"
    using S by (simp add: s32_id)
  have rb: "read_bytes \<lparr>rest = contents, eof = False\<rparr> S =
      (True, take S contents, \<lparr>rest = drop S contents, eof = False\<rparr>)"
    using False le by (simp add: read_bytes_eq)
  show ?thesis
    using g ne nex st False fo
    by (simp add: write_fullpath_def n rb Let_def split: option.splits)
qed


subsection \<open>The tables of a build\<close>

lemma writeDirectories_from_distinct:
  "distinct (map fst (m_files t)) \<Longrightarrow>
   distinct (map fst (m_files (writeDirectories_from ext g sname i t)))"
proof (induction ext g sname i t rule: writeDirectories_from.induct)
  case (1 ext g sname i t)
  show ?case
  proof (cases "int i < s32 (int (length sname))")
    case True
    show ?thesis
      using True "1.prems" "1.IH" [OF True]
      by (subst writeDirectories_from.simps) (simp add: Let_def distinct_update)
  next
    case False
    then show ?thesis
      using "1.prems" by (subst writeDirectories_from.simps) simp
  qed
qed

lemma dir_prefixes_ok:
  assumes "d \<in> set (dir_prefixes name)" and "NUL \<notin> set name" and "length name < 32768"
  shows "d \<noteq> [] \<and> NUL \<notin> set d \<and> length d < 32768"
  using assms by (auto simp: dir_prefixes_def dest: in_set_takeD)

lemma writeDirectories_table_ok:
  assumes g: "\<not> UseNewCache g" and nm: "NUL \<notin> set name" "length name < 32768"
    and t: "table_ok ext t"
  shows "table_ok ext (writeDirectories ext g name t)"
proof -
  have l: "length name < 2147483648"
    using nm by simp
  have d: "distinct (map fst (m_files (writeDirectories ext g name t)))"
    using t by (simp add: table_ok_def writeDirectories_def writeDirectories_from_distinct)
  have "entry_ok ext k b" if "map_of (m_files (writeDirectories ext g name t)) k = Some b" for k b
  proof (cases "k \<in> set (dir_prefixes name) \<and> map_of (m_files t) k = None")
    case True
    with that have "b = directory_buffer"
      by (simp only: writeDirectories_lookup [OF g nm(1) l] if_True) simp
    then show ?thesis
      using True dir_prefixes_ok [OF _ nm, of k] by (simp add: entry_ok_def)
  next
    case False
    with that have "map_of (m_files t) k = Some b"
      by (simp only: writeDirectories_lookup [OF g nm(1) l] if_False)
    then show ?thesis
      using t unfolding table_ok_def by blast
  qed
  then show ?thesis
    using d unfolding table_ok_def by blast
qed

lemma update_table_ok:
  assumes "table_ok ext t" and "entry_ok ext name b"
  shows "table_ok ext (t\<lparr>m_files := AList.update name b (m_files t)\<rparr>)"
proof -
  have d: "distinct (map fst (AList.update name b (m_files t)))"
    using assms(1) by (simp add: table_ok_def distinct_update)
  have "entry_ok ext k v" if "map_of (AList.update name b (m_files t)) k = Some v" for k v
  proof (cases "k = name")
    case True
    with that have "v = b"
      by (simp add: update_conv')
    with assms(2) True show ?thesis
      by simp
  next
    case False
    with that have "map_of (m_files t) k = Some v"
      by (simp add: update_conv')
    then show ?thesis
      using assms(1) unfolding table_ok_def by blast
  qed
  then show ?thesis
    using d unfolding table_ok_def by simp
qed

lemma register_table_ok:
  assumes g: "\<not> UseNewCache g" and nm: "NUL \<notin> set (reg_name r)" "length (reg_name r) < 32768"
    and t: "table_ok ext t" and r: "register ext g t r = Inr t'"
  shows "table_ok ext t'"
proof (cases r)
  case (Placeholder name addDirectories)
  have ne: "name \<noteq> []"
    using r Placeholder by (auto simp: write_name_def split: if_splits)
  have e: "entry_ok ext name \<lparr>len = - 1, data = None, clen = - 1, cdata = None\<rparr>"
    using nm ne Placeholder by (simp add: entry_ok_def placeholder_buffer_def)
  have nm': "NUL \<notin> set name" "length name < 32768"
    using nm Placeholder by simp_all
  from r g Placeholder have
    "t' = (if addDirectories
           then writeDirectories ext g name
                  (t\<lparr>m_files := AList.update name
                       \<lparr>len = - 1, data = None, clen = - 1, cdata = None\<rparr> (m_files t)\<rparr>)
           else t\<lparr>m_files := AList.update name
                       \<lparr>len = - 1, data = None, clen = - 1, cdata = None\<rparr> (m_files t)\<rparr>)"
    by (auto simp: write_name_def split: if_splits)
  then show ?thesis
    using update_table_ok [OF t e] writeDirectories_table_ok [OF g nm' update_table_ok [OF t e]]
    by simp
next
  case (StaticFile name fullpath)
  from r StaticFile have "write_fullpath ext g t name fullpath = Inr t'"
    by simp
  from write_fullpath_success [OF g this] obtain b where
    b: "file_buffer ext b" "name \<noteq> []"
    and t': "t' = writeDirectories ext g name (t\<lparr>m_files := AList.update name b (m_files t)\<rparr>)"
    by blast
  have e: "entry_ok ext name b"
    using nm b StaticFile by (simp add: entry_ok_def)
  show ?thesis
    unfolding t'
    using nm StaticFile
    by (intro writeDirectories_table_ok [OF g] update_table_ok [OF t e]) simp_all
qed

lemma register_all_table_ok:
  assumes "\<not> UseNewCache g"
    and "\<forall>r \<in> set regs. NUL \<notin> set (reg_name r) \<and> length (reg_name r) < 32768"
    and "table_ok ext t" and "register_all ext g t regs = Inr t'"
  shows "table_ok ext t'"
  using assms
proof (induction regs arbitrary: t)
  case Nil
  then show ?case by simp
next
  case (Cons r rs)
  from Cons.prems(4) obtain t1 where r: "register ext g t r = Inr t1"
    and rs: "register_all ext g t1 rs = Inr t'"
    by (auto split: sum.splits)
  have "table_ok ext t1"
    using register_table_ok [OF Cons.prems(1) _ _ Cons.prems(3) r] Cons.prems(2) by simp
  then show ?case
    using Cons.IH [OF Cons.prems(1) _ _ rs] Cons.prems(2) by simp
qed

subsection \<open>Reading records from a stream\<close>

lemma length_le_bytes [simp]: "length (le_bytes n x) = n"
  by (induction n arbitrary: x) auto

lemma le_val_le_bytes: "le_val (le_bytes n x) = x mod 256 ^ n"
proof (induction n arbitrary: x)
  case 0
  show ?case by simp
next
  case (Suc n)
  have "x mod (256 * 256 ^ n) = 256 * (x div 256 mod 256 ^ n) + x mod 256"
    by (rule zmod_zmult2_eq) simp
  then show ?case
    by (simp add: Suc)
qed

lemma s16_le_bytes: "- 32768 \<le> x \<Longrightarrow> x < 32768 \<Longrightarrow> s16 (le_val (le_bytes 2 x)) = x"
  by (simp add: le_val_le_bytes s16_def mod_add_left_eq)

lemma s32_le_bytes:
  "- 2147483648 \<le> x \<Longrightarrow> x < 2147483648 \<Longrightarrow> s32 (le_val (le_bytes 4 x)) = x"
  by (simp add: le_val_le_bytes s32_def mod_add_left_eq)

lemma read_bytes_prefix:
  "bs \<noteq> [] \<Longrightarrow> n = length bs \<Longrightarrow>
   read_bytes \<lparr>rest = bs @ tail, eof = e\<rparr> n = (True, bs, \<lparr>rest = tail, eof = e\<rparr>)"
  by (simp add: read_bytes_eq)

text \<open>The stage of load_record after the header of a record has been read.\<close>

lemma load_record_header:
  assumes f: "rest f = le_bytes 2 (int (length name)) @ name @ c # le_bytes 4 n @ tail"
    and nm: "name \<noteq> []" "length name < 32768"
    and n: "- 2147483648 \<le> n" "n < 2147483648"
    and ex: "\<not> exists ext g t (c_str name) True"
  shows "load_record ext g onDemandUncompress version f t =
     (let t1 = t\<lparr>m_files := AList.update name
                  \<lparr>len = n, data = None, clen = - 1, cdata = None\<rparr> (m_files t)\<rparr>;
          f4 = \<lparr>rest = tail, eof = eof f\<rparr>
      in
      if n > 0 then
        if s32 (n + 1) \<le> 0 then Inl (UndefinedBehaviour, t1)
        else if version > 0 then
          (case read_bytes f4 (nat (n + 1)) of
             (ok5, db, f5) \<Rightarrow>
               if \<not> ok5 then Inl (Exception BadData, with_data name n db t1)
               else if db ! nat n \<noteq> NUL then Inl (AlwaysAssertFailed, with_data name n db t1)
               else
                 (case load_payload ext onDemandUncompress name c n db t1 of
                    Inl e \<Rightarrow> Inl e
                  | Inr t' \<Rightarrow> Inr (Some (f5, t'))))
        else
          (case read_bytes f4 (nat n) of
             (ok5, db, f5) \<Rightarrow>
               if \<not> ok5 then Inl (Exception BadData, with_data name n db t1)
               else
                 (case load_payload ext onDemandUncompress name c n (db @ [NUL]) t1 of
                    Inl e \<Rightarrow> Inl e
                  | Inr t' \<Rightarrow> Inr (Some (f5, t'))))
      else Inr (Some (f4, t1)))"
proof -
  have f': "f = \<lparr>rest = le_bytes 2 (int (length name)) @ name @ c # le_bytes 4 n @ tail, eof = eof f\<rparr>"
    using f by (cases f) simp
  have r1: "read_bytes f 2 =
      (True, le_bytes 2 (int (length name)), \<lparr>rest = name @ c # le_bytes 4 n @ tail, eof = eof f\<rparr>)"
    by (subst f', rule read_bytes_prefix) (simp_all add: numeral_2_eq_2)
  have nl: "s16 (le_val (le_bytes 2 (int (length name)))) = int (length name)"
    using nm by (intro s16_le_bytes) simp_all
  have r2: "read_bytes \<lparr>rest = name @ c # le_bytes 4 n @ tail, eof = eof f\<rparr> (length name) =
      (True, name, \<lparr>rest = c # le_bytes 4 n @ tail, eof = eof f\<rparr>)"
    using nm by (intro read_bytes_prefix) simp_all
  have r3: "read_bytes \<lparr>rest = c # le_bytes 4 n @ tail, eof = eof f\<rparr> (Suc 0) =
      (True, [c], \<lparr>rest = le_bytes 4 n @ tail, eof = eof f\<rparr>)"
    using read_bytes_prefix [of "[c]" "Suc 0" "le_bytes 4 n @ tail" "eof f"] by simp
  have r4: "read_bytes \<lparr>rest = le_bytes 4 n @ tail, eof = eof f\<rparr> 4 =
      (True, le_bytes 4 n, \<lparr>rest = tail, eof = eof f\<rparr>)"
    by (rule read_bytes_prefix) (simp_all add: eval_nat_numeral)
  have n32: "s32 (le_val (le_bytes 4 n)) = n"
    using n by (rule s32_le_bytes)
  show ?thesis
    using nm ex
    by (simp add: load_record_def r1 nl r2 r3 r4 n32 Let_def
          cong: prod.case_cong if_cong sum.case_cong)
qed


lemma of_char_range: "0 \<le> (of_char c :: int)" "(of_char c :: int) < 256"
proof -
  have a: "0 \<le> (of_char c :: int) mod 256"
    by (rule pos_mod_sign) simp
  have b: "(of_char c :: int) mod 256 < 256"
    by (rule pos_mod_bound) simp
  from a show "0 \<le> (of_char c :: int)"
    by (simp only: of_char_mod_256)
  from b show "(of_char c :: int) < 256"
    by (simp only: of_char_mod_256)
qed

lemma s16_third_byte: "s16 (of_char c + 65280) = of_char c - 256"
proof -
  have "(of_char c + 98048 :: int) = of_char c + 32512 + 1 * 65536"
    by simp
  then have "(of_char c + 98048 :: int) mod 65536 = (of_char c + 32512 + 1 * 65536) mod 65536"
    by (simp only:)
  also have "\<dots> = (of_char c + 32512) mod 65536"
    by (rule mod_mult_self1)
  also have "\<dots> = of_char c + 32512"
    using of_char_range [of c] by (intro mod_pos_pos_trivial) simp_all
  finally have "(of_char c + 65280 + 32768 :: int) mod 65536 - 32768 = of_char c - 256"
    by (simp add: add.commute)
  then show ?thesis
    by (simp only: s16_def)
qed

subsection \<open>Saving and reloading an entry\<close>

lemma s16_id: "- 32768 \<le> x \<Longrightarrow> x < 32768 \<Longrightarrow> s16 x = x"
  by (simp add: s16_def)

lemma c_div_4_bound: "- 2147483648 \<le> y \<Longrightarrow> y < 2147483648 \<Longrightarrow> c_div y 4 < 536870912"
  by (cases "0 \<le> y") (auto simp: c_div_def sgn_if)

lemma s32_range: "- 2147483648 \<le> s32 x \<and> s32 x < 2147483648"
proof -
  have "0 \<le> (x + 2147483648) mod 4294967296" "(x + 2147483648) mod 4294967296 < 4294967296"
    by simp_all
  then show ?thesis
    unfolding s32_def by linarith
qed

text \<open>What \<open>save_entry\<close> writes for an entry of a build.\<close>

lemma save_entry_ok:
  assumes "reload_ok ext name b"
  shows "save_entry (name, b) =
     Inr (le_bytes 2 (int (length name)) @ name @
          (case cdata b of
             Some cb \<Rightarrow> CHR 0x01 # le_bytes 4 (clen b) @ cb @ [NUL]
           | None \<Rightarrow>
               NUL # le_bytes 4 (len b) @
               (case data b of Some raw \<Rightarrow> raw @ [NUL] | None \<Rightarrow> [])))"
  using assms
  by (auto simp: reload_ok_def entry_ok_def save_entry_def s16_id Let_def file_buffer_def
        directory_buffer_def placeholder_buffer_def split: option.splits)

lemma load_record_saved:
  assumes ok: "reload_ok ext name b" and g: "\<not> UseNewCache g"
    and nex: "map_of (m_files t) name = None"
    and s: "save_entry (name, b) = Inr bs"
  shows "load_record ext g False 1 \<lparr>rest = bs @ tail, eof = e\<rparr> t =
     Inr (Some (\<lparr>rest = tail, eof = e\<rparr>,
                t\<lparr>m_files := AList.update name (reloaded ext b) (m_files t)\<rparr>))"
proof -
  from ok have nm: "name \<noteq> []" "length name < 32768" and nul: "NUL \<notin> set name"
    and kind: "b = directory_buffer \<or> b = placeholder_buffer \<or> file_buffer ext b"
    and big: "len b < 2147483647"
    by (simp_all add: reload_ok_def entry_ok_def)
  have ex: "\<not> exists ext g t (c_str name) True"
    using g nex by (simp add: c_str_id [OF nul] exists_def)
  note bs = s [unfolded save_entry_ok [OF ok], simplified]
  show ?thesis
  proof (cases "cdata b")
    case None
    show ?thesis
    proof (cases "0 < len b")
      case False
      with None kind have d: "data b = None" and c: "clen b = - 1 \<or> clen b = - 2"
        and r: "- 2147483648 \<le> len b"
        by (auto simp: directory_buffer_def placeholder_buffer_def file_buffer_def)
      have f: "rest \<lparr>rest = bs @ tail, eof = e\<rparr> =
          le_bytes 2 (int (length name)) @ name @ NUL # le_bytes 4 (len b) @ tail"
        using bs None d by auto
      have rl: "reloaded ext b = \<lparr>len = len b, data = None, clen = - 1, cdata = None\<rparr>"
        using None False by (simp add: reloaded_def)
      show ?thesis
        using False big r
        by (simp add: load_record_header [OF f nm _ _ ex] rl)
    next
      case True
      with None kind obtain raw where d: "data b = Some raw" and l: "int (length raw) = len b"
        by (auto simp: directory_buffer_def placeholder_buffer_def file_buffer_def)
      have f: "rest \<lparr>rest = bs @ tail, eof = e\<rparr> =
          le_bytes 2 (int (length name)) @ name @ NUL # le_bytes 4 (len b) @ (raw @ [NUL] @ tail)"
        using bs None d by auto
      have rl: "reloaded ext b = \<lparr>len = len b, data = Some (raw @ [NUL]), clen = - 1, cdata = None\<rparr>"
        using None True d l by (simp add: reloaded_def)
      have s: "\<not> s32 (len b + 1) \<le> 0"
        using True big by (simp add: s32_id)
      have n1: "nat (len b + 1) = length (raw @ [NUL])" and n0: "nat (len b) = length raw"
        by (simp_all add: l [symmetric])
      have rb: "read_bytes \<lparr>rest = raw @ NUL # tail, eof = e\<rparr> (nat (len b + 1)) =
          (True, raw @ [NUL], \<lparr>rest = tail, eof = e\<rparr>)"
        unfolding n1 using read_bytes_prefix [of "raw @ [NUL]" _ tail e] by simp
      have nth: "(raw @ [NUL]) ! nat (len b) = NUL"
        unfolding n0 by simp
      show ?thesis
        using True big
        by (simp add: load_record_header [OF f nm _ _ ex] rl s rb nth load_payload_def
              with_data_def Let_def)
    qed
  next
    case (Some cb)
    with kind obtain raw where d: "data b = Some raw"
      and cl: "clen b = int (length cb)" and gate: "clen b < c_div (s32 (len b * 3)) 4"
      by (auto simp: directory_buffer_def placeholder_buffer_def file_buffer_def)
    from ok Some d have ne: "cb \<noteq> []" and dec: "gzdecode ext cb = Some raw"
      by (simp_all add: reload_ok_def)
    have pos: "0 < clen b"
      using ne cl by simp
    have small: "clen b < 536870912"
      using gate c_div_4_bound [of "s32 (len b * 3)"] s32_range [of "len b * 3"] by linarith
    have f: "rest \<lparr>rest = bs @ tail, eof = e\<rparr> =
        le_bytes 2 (int (length name)) @ name @ CHR 0x01 # le_bytes 4 (clen b) @ (cb @ [NUL] @ tail)"
      using bs Some by auto
    have rl: "reloaded ext b =
        \<lparr>len = int (length raw), data = Some raw, clen = clen b, cdata = Some (cb @ [NUL])\<rparr>"
      using Some cl dec by (simp add: reloaded_def)
    have s: "\<not> s32 (clen b + 1) \<le> 0"
      using pos small by (simp add: s32_id)
    have n1: "nat (clen b + 1) = length (cb @ [NUL])" and n0: "nat (clen b) = length cb"
      by (simp_all add: cl)
    have rb: "read_bytes \<lparr>rest = cb @ NUL # tail, eof = e\<rparr> (nat (clen b + 1)) =
        (True, cb @ [NUL], \<lparr>rest = tail, eof = e\<rparr>)"
      unfolding n1 using read_bytes_prefix [of "cb @ [NUL]" _ tail e] by simp
    have nth: "(cb @ [NUL]) ! nat (clen b) = NUL"
      unfolding n0 by simp
    have one: "CHR 0x01 \<noteq> NUL"
      by (simp add: NUL_def)
    show ?thesis
      using pos small
      by (simp add: load_record_header [OF f nm _ _ ex] rl s rb nth load_payload_def one n0 dec
            Let_def)
  qed
qed

lemma update_new: "map_of al k = None \<Longrightarrow> AList.update k v al = al @ [(k, v)]"
  by (induction al) (auto split: if_splits)

lemma load_record_at_end:
  "load_record ext g onDemandUncompress version \<lparr>rest = [], eof = e\<rparr> t = Inr None"
  by (simp add: load_record_def read_bytes_eq)

lemma load_loop_saved:
  assumes g: "\<not> UseNewCache g"
  shows "save_entries es = Inr bs \<Longrightarrow> distinct (map fst es) \<Longrightarrow>
    (\<forall>(n, b) \<in> set es. reload_ok ext n b) \<Longrightarrow>
    (\<forall>(n, b) \<in> set es. map_of (m_files t) n = None) \<Longrightarrow>
    load_loop ext g False 1 \<lparr>rest = bs, eof = False\<rparr> t =
      Inr (t\<lparr>m_files := m_files t @ map (\<lambda>(n, b). (n, reloaded ext b)) es\<rparr>)"
proof (induction es arbitrary: t bs)
  case Nil
  then show ?case
    by (subst load_loop.simps) (simp add: load_record_at_end)
next
  case (Cons nb es)
  obtain n b where nb: "nb = (n, b)"
    by (cases nb)
  from Cons.prems(1) obtain b1 b2 where s1: "save_entry (n, b) = Inr b1"
    and s2: "save_entries es = Inr b2" and bs: "bs = b1 @ b2"
    by (auto simp: nb split: sum.splits)
  have ok: "reload_ok ext n b" and nex: "map_of (m_files t) n = None"
    using Cons.prems(3,4) by (simp_all add: nb)
  define t1 where "t1 = t\<lparr>m_files := m_files t @ [(n, reloaded ext b)]\<rparr>"
  have r: "load_record ext g False 1 \<lparr>rest = bs, eof = False\<rparr> t =
      Inr (Some (\<lparr>rest = b2, eof = False\<rparr>, t1))"
    unfolding bs t1_def
    using load_record_saved [OF ok g nex s1, of b2 False] by (simp add: update_new [OF nex])
  have d: "distinct (map fst es)" and fresh: "\<forall>(n', b') \<in> set es. n' \<noteq> n"
    using Cons.prems(2) by (force simp: nb)+
  have nex1: "\<forall>(n', b') \<in> set es. map_of (m_files t1) n' = None"
    using Cons.prems(4) fresh by (auto simp: t1_def map_of_append [symmetric] map_add_def
        split: option.splits)
  have ok1: "\<forall>(n, b) \<in> set es. reload_ok ext n b"
    using Cons.prems(3) by simp
  show ?case
    using Cons.IH [OF s2 d ok1 nex1]
    by (subst load_loop.simps) (simp add: r nb t1_def)
qed

lemma reloaded_props:
  assumes "reload_ok ext name b"
  shows "len (reloaded ext b) = len b"
    and "(data (reloaded ext b) = None) = (data b = None)"
    and "(cdata (reloaded ext b) = None) = (cdata b = None)"
    and "cdata b \<noteq> None \<Longrightarrow> clen (reloaded ext b) = clen b"
    and "map_option (take (nat (len b))) (data (reloaded ext b)) =
         map_option (take (nat (len b))) (data b)"
    and "map_option (take (nat (clen b))) (cdata (reloaded ext b)) =
         map_option (take (nat (clen b))) (cdata b)"
    and "cdata b \<noteq> None \<Longrightarrow> 0 < clen b"
    and "len b < 0 \<Longrightarrow> cdata b = None"
    and "len b \<le> 0 \<Longrightarrow> data b = None"
  using assms
  by (auto simp: reload_ok_def entry_ok_def reloaded_def file_buffer_def directory_buffer_def
        placeholder_buffer_def Let_def split: option.splits)

lemma map_of_reloaded:
  "map_of (map (\<lambda>(n, b). (n, reloaded ext b)) es) k = map_option (reloaded ext) (map_of es k)"
  by (induction es) auto

lemma queries_reloaded:
  assumes g: "\<not> UseNewCache g"
    and ok: "\<And>k b. map_of (m_files t) k = Some b \<Longrightarrow> reload_ok ext k b"
    and t': "m_files t' = map (\<lambda>(n, b). (n, reloaded ext b)) (m_files t)"
  shows "exists ext g t' name isRelative = exists ext g t name isRelative"
    and "dirExists ext g t' name isRelative = dirExists ext g t name isRelative"
    and "fileExists ext g t' name isRelative = fileExists ext g t name isRelative"
    and "bytes_read (read ext g t' name n0 c0) = bytes_read (read ext g t name n0 c0)"
    and "fileSize ext g t' name isRelative = fileSize ext g t name isRelative"
proof -
  have look: "map_of (m_files t') k = map_option (reloaded ext) (map_of (m_files t) k)" for k
    by (simp add: t' map_of_reloaded)
  define k where "k = (if isRelative then name else c_str (GetRelativePath g name))"
  have len_k: "len (reloaded ext b) = len b" if "map_of (m_files t) k = Some b" for b
    using reloaded_props(1) [OF ok [OF that]] .
  show "exists ext g t' name isRelative = exists ext g t name isRelative"
    using g by (simp add: exists_def look Let_def)
  show "dirExists ext g t' name isRelative = dirExists ext g t name isRelative"
    using g len_k
    by (cases "map_of (m_files t) k") (simp_all add: dirExists_def look Let_def k_def [symmetric])
  show "fileExists ext g t' name isRelative = fileExists ext g t name isRelative"
    using g len_k
    by (cases "map_of (m_files t) k") (simp_all add: fileExists_def look Let_def k_def [symmetric])
  show "bytes_read (read ext g t' name n0 c0) = bytes_read (read ext g t name n0 c0)"
  proof (cases "map_of (m_files t) name")
    case None
    then show ?thesis
      using g by (simp add: read_def look)
  next
    case (Some b)
    note p = reloaded_props [OF ok [OF Some]]
    show ?thesis
      using g Some p
      by (auto simp: read_def look bytes_read_def)
  qed
  show "fileSize ext g t' name isRelative = fileSize ext g t name isRelative"
  proof -
    show ?thesis
    proof (cases "map_of (m_files t) k")
      case None
      then show ?thesis
        using g by (simp add: fileSize_def look Let_def k_def [symmetric])
    next
      case (Some b)
      note p = reloaded_props [OF ok [OF Some]]
      show ?thesis
        using g Some p(1,3,8)
        by (cases "0 \<le> len b") (auto simp: fileSize_def look Let_def k_def [symmetric])
    qed
  qed
qed

lemma reloaded_as_False [simp]: "reloaded_as False ext b = reloaded ext b"
  by (simp add: reloaded_as_def split: option.splits)

lemma load_record_saved_deferred:
  assumes ok: "reload_ok ext name b" and g: "\<not> UseNewCache g"
    and nex: "map_of (m_files t) name = None"
    and s: "save_entry (name, b) = Inr bs"
  shows "load_record ext g True 1 \<lparr>rest = bs @ tail, eof = e\<rparr> t =
     Inr (Some (\<lparr>rest = tail, eof = e\<rparr>,
                t\<lparr>m_files := AList.update name (reloaded_as True ext b) (m_files t)\<rparr>))"
proof -
  from ok have nm: "name \<noteq> []" "length name < 32768" and nul: "NUL \<notin> set name"
    and kind: "b = directory_buffer \<or> b = placeholder_buffer \<or> file_buffer ext b"
    and big: "len b < 2147483647"
    by (simp_all add: reload_ok_def entry_ok_def)
  have ex: "\<not> exists ext g t (c_str name) True"
    using g nex by (simp add: c_str_id [OF nul] exists_def)
  note bs = s [unfolded save_entry_ok [OF ok], simplified]
  show ?thesis
  proof (cases "cdata b")
    case None
    show ?thesis
    proof (cases "0 < len b")
      case False
      with None kind have d: "data b = None" and c: "clen b = - 1 \<or> clen b = - 2"
        and r: "- 2147483648 \<le> len b"
        by (auto simp: directory_buffer_def placeholder_buffer_def file_buffer_def)
      have f: "rest \<lparr>rest = bs @ tail, eof = e\<rparr> =
          le_bytes 2 (int (length name)) @ name @ NUL # le_bytes 4 (len b) @ tail"
        using bs None d by auto
      have rl: "reloaded_as True ext b = \<lparr>len = len b, data = None, clen = - 1, cdata = None\<rparr>"
        using None False by (simp add: reloaded_as_def reloaded_def)
      show ?thesis
        using False big r
        by (simp add: load_record_header [OF f nm _ _ ex] rl)
    next
      case True
      with None kind obtain raw where d: "data b = Some raw" and l: "int (length raw) = len b"
        by (auto simp: directory_buffer_def placeholder_buffer_def file_buffer_def)
      have f: "rest \<lparr>rest = bs @ tail, eof = e\<rparr> =
          le_bytes 2 (int (length name)) @ name @ NUL # le_bytes 4 (len b) @ (raw @ [NUL] @ tail)"
        using bs None d by auto
      have rl: "reloaded_as True ext b =
          \<lparr>len = len b, data = Some (raw @ [NUL]), clen = - 1, cdata = None\<rparr>"
        using None True d l by (simp add: reloaded_as_def reloaded_def)
      have s: "\<not> s32 (len b + 1) \<le> 0"
        using True big by (simp add: s32_id)
      have n1: "nat (len b + 1) = length (raw @ [NUL])" and n0: "nat (len b) = length raw"
        by (simp_all add: l [symmetric])
      have rb: "read_bytes \<lparr>rest = raw @ NUL # tail, eof = e\<rparr> (nat (len b + 1)) =
          (True, raw @ [NUL], \<lparr>rest = tail, eof = e\<rparr>)"
        unfolding n1 using read_bytes_prefix [of "raw @ [NUL]" _ tail e] by simp
      have nth: "(raw @ [NUL]) ! nat (len b) = NUL"
        unfolding n0 by simp
      show ?thesis
        using True big
        by (simp add: load_record_header [OF f nm _ _ ex] rl s rb nth load_payload_def
              with_data_def Let_def)
    qed
  next
    case (Some cb)
    with kind obtain raw where d: "data b = Some raw"
      and cl: "clen b = int (length cb)" and gate: "clen b < c_div (s32 (len b * 3)) 4"
      by (auto simp: directory_buffer_def placeholder_buffer_def file_buffer_def)
    from ok Some d have ne: "cb \<noteq> []"
      by (simp_all add: reload_ok_def)
    have pos: "0 < clen b"
      using ne cl by simp
    have small: "clen b < 536870912"
      using gate c_div_4_bound [of "s32 (len b * 3)"] s32_range [of "len b * 3"] by linarith
    have f: "rest \<lparr>rest = bs @ tail, eof = e\<rparr> =
        le_bytes 2 (int (length name)) @ name @ CHR 0x01 # le_bytes 4 (clen b) @ (cb @ [NUL] @ tail)"
      using bs Some by auto
    have rl: "reloaded_as True ext b =
        \<lparr>len = - 1, data = None, clen = clen b, cdata = Some (cb @ [NUL])\<rparr>"
      using Some cl by (simp add: reloaded_as_def)
    have s: "\<not> s32 (clen b + 1) \<le> 0"
      using pos small by (simp add: s32_id)
    have n1: "nat (clen b + 1) = length (cb @ [NUL])" and n0: "nat (clen b) = length cb"
      by (simp_all add: cl)
    have rb: "read_bytes \<lparr>rest = cb @ NUL # tail, eof = e\<rparr> (nat (clen b + 1)) =
        (True, cb @ [NUL], \<lparr>rest = tail, eof = e\<rparr>)"
      unfolding n1 using read_bytes_prefix [of "cb @ [NUL]" _ tail e] by simp
    have nth: "(cb @ [NUL]) ! nat (clen b) = NUL"
      unfolding n0 by simp
    have one: "CHR 0x01 \<noteq> NUL"
      by (simp add: NUL_def)
    show ?thesis
      using pos small
      by (simp add: load_record_header [OF f nm _ _ ex] rl s rb nth load_payload_def one n0
            Let_def)
  qed
qed

lemma load_record_saved_as:
  assumes ok: "reload_ok ext name b" and g: "\<not> UseNewCache g"
    and nex: "map_of (m_files t) name = None"
    and s: "save_entry (name, b) = Inr bs"
  shows "load_record ext g onDemandUncompress 1 \<lparr>rest = bs @ tail, eof = e\<rparr> t =
     Inr (Some (\<lparr>rest = tail, eof = e\<rparr>,
                t\<lparr>m_files := AList.update name (reloaded_as onDemandUncompress ext b) (m_files t)\<rparr>))"
proof (cases onDemandUncompress)
  case True
  then show ?thesis
    using load_record_saved_deferred [OF ok g nex s] by simp
next
  case False
  then show ?thesis
    using load_record_saved [OF ok g nex s] by simp
qed

lemma load_loop_saved_as:
  assumes g: "\<not> UseNewCache g"
  shows "save_entries es = Inr bs \<Longrightarrow> distinct (map fst es) \<Longrightarrow>
    (\<forall>(n, b) \<in> set es. reload_ok ext n b) \<Longrightarrow>
    (\<forall>(n, b) \<in> set es. map_of (m_files t) n = None) \<Longrightarrow>
    load_loop ext g onDemandUncompress 1 \<lparr>rest = bs, eof = False\<rparr> t =
      Inr (t\<lparr>m_files := m_files t @
               map (\<lambda>(n, b). (n, reloaded_as onDemandUncompress ext b)) es\<rparr>)"
proof (induction es arbitrary: t bs)
  case Nil
  then show ?case
    by (subst load_loop.simps) (simp add: load_record_at_end)
next
  case (Cons nb es)
  obtain n b where nb: "nb = (n, b)"
    by (cases nb)
  from Cons.prems(1) obtain b1 b2 where s1: "save_entry (n, b) = Inr b1"
    and s2: "save_entries es = Inr b2" and bs: "bs = b1 @ b2"
    by (auto simp: nb split: sum.splits)
  have ok: "reload_ok ext n b" and nex: "map_of (m_files t) n = None"
    using Cons.prems(3,4) by (simp_all add: nb)
  define t1 where "t1 = t\<lparr>m_files := m_files t @ [(n, reloaded_as onDemandUncompress ext b)]\<rparr>"
  have r: "load_record ext g onDemandUncompress 1 \<lparr>rest = bs, eof = False\<rparr> t =
      Inr (Some (\<lparr>rest = b2, eof = False\<rparr>, t1))"
    unfolding bs t1_def
    using load_record_saved_as [OF ok g nex s1, of onDemandUncompress b2 False]
    by (simp add: update_new [OF nex])
  have d: "distinct (map fst es)" and fresh: "\<forall>(n', b') \<in> set es. n' \<noteq> n"
    using Cons.prems(2) by (force simp: nb)+
  have nex1: "\<forall>(n', b') \<in> set es. map_of (m_files t1) n' = None"
    using Cons.prems(4) fresh by (auto simp: t1_def map_of_append [symmetric] map_add_def
        split: option.splits)
  have ok1: "\<forall>(n, b) \<in> set es. reload_ok ext n b"
    using Cons.prems(3) by simp
  show ?case
    using Cons.IH [OF s2 d ok1 nex1]
    by (subst load_loop.simps) (simp add: r nb t1_def)
qed

lemma map_of_reloaded_as:
  "map_of (map (\<lambda>(n, b). (n, reloaded_as odu ext b)) es) k =
     map_option (reloaded_as odu ext) (map_of es k)"
  by (induction es) auto

lemma reloaded_deferred_cases:
  assumes "reload_ok ext name b"
  shows "(cdata b = None \<and> reloaded_as True ext b = reloaded ext b) \<or>
         (\<exists>cb raw. cdata b = Some cb \<and> data b = Some raw \<and> 0 < len b \<and>
            len b = int (length raw) \<and> clen b = int (length cb) \<and> cb \<noteq> [] \<and>
            gzdecode ext cb = Some raw \<and>
            reloaded_as True ext b =
              \<lparr>len = - 1, data = None, clen = clen b, cdata = Some (cb @ [NUL])\<rparr>)"
  using assms
  by (auto simp: reload_ok_def entry_ok_def reloaded_as_def file_buffer_def directory_buffer_def
        placeholder_buffer_def split: option.splits)

lemma queries_reloaded_as:
  assumes g: "\<not> UseNewCache g"
    and ok: "\<And>k b. map_of (m_files t) k = Some b \<Longrightarrow> reload_ok ext k b"
    and t': "m_files t' = map (\<lambda>(n, b). (n, reloaded_as odu ext b)) (m_files t)"
  shows "exists ext g t' name isRelative = exists ext g t name isRelative"
    and "dirExists ext g t' name isRelative = dirExists ext g t name isRelative"
    and "fileExists ext g t' name isRelative = fileExists ext g t name isRelative"
    and "fileSize ext g t' name isRelative = fileSize ext g t name isRelative"
    and "bytes_read (read ext g t' name n0 c0) =
           (case map_of (m_files t) name of
              Some b \<Rightarrow>
                if odu \<and> \<not> c0 \<and> cdata b \<noteq> None
                then Inr (map_option (take (nat (clen b))) (cdata b), clen b, True)
                else bytes_read (read ext g t name n0 c0)
            | None \<Rightarrow> bytes_read (read ext g t name n0 c0))"
proof -
  have all: "exists ext g t' name isRelative = exists ext g t name isRelative \<and>
      dirExists ext g t' name isRelative = dirExists ext g t name isRelative \<and>
      fileExists ext g t' name isRelative = fileExists ext g t name isRelative \<and>
      fileSize ext g t' name isRelative = fileSize ext g t name isRelative \<and>
      bytes_read (read ext g t' name n0 c0) =
           (case map_of (m_files t) name of
              Some b \<Rightarrow>
                if odu \<and> \<not> c0 \<and> cdata b \<noteq> None
                then Inr (map_option (take (nat (clen b))) (cdata b), clen b, True)
                else bytes_read (read ext g t name n0 c0)
            | None \<Rightarrow> bytes_read (read ext g t name n0 c0))"
  proof (cases odu)
    case False
    have m: "m_files t' = map (\<lambda>(n, b). (n, reloaded ext b)) (m_files t)"
      using t' False by simp
    show ?thesis
      using queries_reloaded [OF g ok m] False by (simp split: option.splits)
  next
    case True
    have look: "map_of (m_files t') k = map_option (reloaded_as True ext) (map_of (m_files t) k)"
      for k
      using True by (simp add: t' map_of_reloaded_as)
    define k where "k = (if isRelative then name else c_str (GetRelativePath g name))"
    have e: "exists ext g t' name isRelative = exists ext g t name isRelative"
      using g by (simp add: exists_def look Let_def)
    have lens: "(len (reloaded_as True ext b) = - 2) = (len b = - 2) \<and>
        (- 1 \<le> len (reloaded_as True ext b)) = (- 1 \<le> len b)"
      if "map_of (m_files t) k = Some b" for b
      using reloaded_deferred_cases [OF ok [OF that]] reloaded_props(1) [OF ok [OF that]]
      by auto
    have d: "dirExists ext g t' name isRelative = dirExists ext g t name isRelative"
      using g lens
      by (cases "map_of (m_files t) k") (simp_all add: dirExists_def look Let_def k_def [symmetric])
    have f: "fileExists ext g t' name isRelative = fileExists ext g t name isRelative"
      using g lens
      by (cases "map_of (m_files t) k") (simp_all add: fileExists_def look Let_def k_def [symmetric])
    have s: "fileSize ext g t' name isRelative = fileSize ext g t name isRelative"
    proof (cases "map_of (m_files t) k")
      case None
      then show ?thesis
        using g by (simp add: fileSize_def look Let_def k_def [symmetric])
    next
      case (Some b)
      from reloaded_deferred_cases [OF ok [OF Some]] show ?thesis
      proof (elim disjE conjE exE)
        assume c: "cdata b = None" and r: "reloaded_as True ext b = reloaded ext b"
        note p = reloaded_props [OF ok [OF Some]]
        show ?thesis
          using g Some p(1,3,8) c r
          by (cases "0 \<le> len b") (auto simp: fileSize_def look Let_def k_def [symmetric])
      next
        fix cb raw
        assume "cdata b = Some cb" "data b = Some raw" "0 < len b" "len b = int (length raw)"
          "clen b = int (length cb)" "cb \<noteq> []" "gzdecode ext cb = Some raw"
          "reloaded_as True ext b =
              \<lparr>len = - 1, data = None, clen = clen b, cdata = Some (cb @ [NUL])\<rparr>"
        then show ?thesis
          using g Some
          by (simp add: fileSize_def look Let_def k_def [symmetric])
      qed
    qed
    have r: "bytes_read (read ext g t' name n0 c0) =
           (case map_of (m_files t) name of
              Some b \<Rightarrow>
                if odu \<and> \<not> c0 \<and> cdata b \<noteq> None
                then Inr (map_option (take (nat (clen b))) (cdata b), clen b, True)
                else bytes_read (read ext g t name n0 c0)
            | None \<Rightarrow> bytes_read (read ext g t name n0 c0))"
    proof (cases "map_of (m_files t) name")
      case None
      then show ?thesis
        using g by (simp add: read_def look)
    next
      case (Some b)
      from ok [OF Some] have ne: "name \<noteq> []"
        by (simp add: reload_ok_def entry_ok_def)
      from reloaded_deferred_cases [OF ok [OF Some]] show ?thesis
      proof (elim disjE conjE exE)
        assume c: "cdata b = None" and r: "reloaded_as True ext b = reloaded ext b"
        note p = reloaded_props [OF ok [OF Some]]
        show ?thesis
          using g Some p c r
          by (auto simp: read_def look bytes_read_def)
      next
        fix cb raw
        assume "cdata b = Some cb" "data b = Some raw" "0 < len b" "len b = int (length raw)"
          "clen b = int (length cb)" "cb \<noteq> []" "gzdecode ext cb = Some raw"
          "reloaded_as True ext b =
              \<lparr>len = - 1, data = None, clen = clen b, cdata = Some (cb @ [NUL])\<rparr>"
        then show ?thesis
          using g Some ne True
          by (auto simp: read_def look bytes_read_def)
      qed
    qed
    show ?thesis
      using e d f s r by simp
  qed
  then show "exists ext g t' name isRelative = exists ext g t name isRelative"
    and "dirExists ext g t' name isRelative = dirExists ext g t name isRelative"
    and "fileExists ext g t' name isRelative = fileExists ext g t name isRelative"
    and "fileSize ext g t' name isRelative = fileSize ext g t name isRelative"
    and "bytes_read (read ext g t' name n0 c0) =
           (case map_of (m_files t) name of
              Some b \<Rightarrow>
                if odu \<and> \<not> c0 \<and> cdata b \<noteq> None
                then Inr (map_option (take (nat (clen b))) (cdata b), clen b, True)
                else bytes_read (read ext g t name n0 c0)
            | None \<Rightarrow> bytes_read (read ext g t name n0 c0))"
    by simp_all
qed

lemma save_entries_ok:
  "(\<forall>(n, b) \<in> set es. reload_ok ext n b) \<Longrightarrow> \<exists>bs. save_entries es = Inr bs"
proof (induction es)
  case Nil
  show ?case by simp
next
  case (Cons nb es)
  obtain n b where nb: "nb = (n, b)"
    by (cases nb)
  from Cons.prems have "reload_ok ext n b"
    by (simp add: nb)
  then obtain b1 where "save_entry (n, b) = Inr b1"
    using save_entry_ok by blast
  moreover from Cons obtain b2 where "save_entries es = Inr b2"
    by auto
  ultimately show ?case
    by (simp add: nb)
qed

lemma reload_ok_fopen_r [simp]:
  "reload_ok (ext\<lparr>fopen_r := h\<rparr>) n b = reload_ok ext n b"
  "reloaded (ext\<lparr>fopen_r := h\<rparr>) b = reloaded ext b"
  by (simp_all add: reload_ok_def entry_ok_def file_buffer_def reloaded_def Let_def
        split: option.splits)

subsection \<open>Reading fields from the mapped region\<close>

lemma read_bytes_mem_eq:
  "e \<le> length region \<Longrightarrow>
   read_bytes_mem region p e n =
     (if p + n \<le> e then Inr (n \<noteq> 0, take n (drop p region), p + n) else Inr (False, [], p))"
  by (simp add: read_bytes_mem_def memcpy_def)

lemma read_bytes_mem_Inr:
  "read_bytes_mem region p e n = Inr (ok, bs, p') \<Longrightarrow>
   (ok \<longrightarrow> p' = p + n \<and> p + n \<le> e) \<and> (\<not> ok \<longrightarrow> p' = p)"
  by (auto simp: read_bytes_mem_def split: if_splits sum.splits)

lemma read_bytes_mem_Inl:
  "e \<le> length region \<Longrightarrow> read_bytes_mem region p e n \<noteq> Inl er"
  by (simp add: read_bytes_mem_eq)

lemma loadMmap_record_in_bounds:
  assumes e: "e \<le> length region"
  shows "loadMmap_record ext g region e p t \<noteq> Inl (OutOfBounds, t')"
  using e unfolding loadMmap_record_def Let_def
  by (auto simp: read_bytes_mem_Inl memcpy_def split: if_splits sum.splits prod.splits
           dest!: read_bytes_mem_Inr)

lemma loadMmap_loop_in_bounds:
  "e \<le> length region \<Longrightarrow> loadMmap_loop ext g region e p t \<noteq> Inl (OutOfBounds, t')"
proof (induction ext g region e p t rule: loadMmap_loop.induct)
  case (1 ext g region e p t)
  show ?case
  proof (cases "p < e")
    case True
    show ?thesis
    proof (cases "loadMmap_record ext g region e p t")
      case (Inl x)
      then show ?thesis
        using True loadMmap_record_in_bounds [OF "1.prems", of ext g p t t']
        by (subst loadMmap_loop.simps) auto
    next
      case (Inr y)
      then obtain p' t'' where y: "y = (p', t'')"
        by (cases y) auto
      show ?thesis
        using True Inr y "1.IH" [OF True Inr y [symmetric] "1.prems"]
        by (subst loadMmap_loop.simps) simp
    qed
  next
    case False
    then show ?thesis
      by (subst loadMmap_loop.simps) simp
  qed
qed

lemma overlay_full: "length got = length old \<Longrightarrow> overlay got old = got"
  by (simp add: overlay_def)

lemma loadMmap_record_truncated:
  fixes region :: "char list" and p e :: nat
  assumes e: "e \<le> length region"
  defines "name_len \<equiv> s16 (le_val (take 2 (drop p region)))"
  defines "p2 \<equiv> p + 2 + nat name_len"
  defines "file \<equiv> take (nat name_len) (drop (p + 2) region)"
  defines "n \<equiv> s32 (le_val (take 4 (drop (p2 + 1) region)))"
  shows "(e < p + 2 \<longrightarrow>
            loadMmap_record ext g region e p t = Inl (Exception BadFileNameLength, t)) \<and>
         (p + 2 \<le> e \<and> 0 < name_len \<and> e < p2 \<longrightarrow>
            loadMmap_record ext g region e p t = Inl (Exception BadFileName, t)) \<and>
         (p + 2 \<le> e \<and> 0 < name_len \<and> p2 \<le> e \<and> \<not> exists ext g t (c_str file) True \<and>
          e < p2 + 5 \<longrightarrow>
            loadMmap_record ext g region e p t = Inl (Exception BadDataLength, t)) \<and>
         (p + 2 \<le> e \<and> 0 < name_len \<and> p2 \<le> e \<and> \<not> exists ext g t (c_str file) True \<and>
          p2 + 5 \<le> e \<and> 0 < n \<and> int e < int (p2 + 5) + n + 1 \<longrightarrow>
            loadMmap_record ext g region e p t =
              Inl (Exception BadData,
                   t\<lparr>m_files := AList.update file
                        \<lparr>len = n, data = None, clen = - 1, cdata = None\<rparr> (m_files t)\<rparr>))"
proof (intro conjI impI)
  assume "e < p + 2"
  then show "loadMmap_record ext g region e p t = Inl (Exception BadFileNameLength, t)"
    using e by (simp add: loadMmap_record_def read_bytes_mem_eq)
next
  have r1: "read_bytes_mem region p e 2 = Inr (True, take 2 (drop p region), p + 2)"
    if "p + 2 \<le> e"
    using e that by (simp add: read_bytes_mem_eq)
  have ov: "overlay (take 2 (drop p region)) (le_bytes 2 (- 1)) = take 2 (drop p region)"
    if "p + 2 \<le> e"
    using e that by (intro overlay_full) simp
  have r2: "read_bytes_mem region (p + 2) e (nat name_len) = Inr (True, file, p2)"
    if "0 < name_len" "p2 \<le> e"
    using e that by (simp add: read_bytes_mem_eq p2_def file_def)
  {
    assume a: "p + 2 \<le> e \<and> 0 < name_len \<and> e < p2"
    then have "read_bytes_mem region (p + 2) e (nat name_len) = Inr (False, [], p + 2)"
      using e by (simp add: read_bytes_mem_eq p2_def)
    then show "loadMmap_record ext g region e p t = Inl (Exception BadFileName, t)"
      using a by (simp add: loadMmap_record_def r1 ov name_len_def [symmetric] Let_def)
  }
  {
    assume a: "p + 2 \<le> e \<and> 0 < name_len \<and> p2 \<le> e \<and> \<not> exists ext g t (c_str file) True \<and>
          e < p2 + 5"
    have "loadMmap_record ext g region e p t = Inl (Exception BadDataLength, t)"
    proof (cases "p2 + 1 \<le> e")
      case True
      then have r3: "read_bytes_mem region p2 e 1 = Inr (True, take 1 (drop p2 region), p2 + 1)"
        using e by (simp add: read_bytes_mem_eq)
      have r4: "read_bytes_mem region (p2 + 1) e 4 = Inr (False, [], p2 + 1)"
        using e a by (simp add: read_bytes_mem_eq)
      show ?thesis
        using a r2 r3 r4
        by (simp add: loadMmap_record_def r1 ov name_len_def [symmetric] Let_def)
    next
      case False
      then have r3: "read_bytes_mem region p2 e 1 = Inr (False, [], p2)"
        using e by (simp add: read_bytes_mem_eq)
      show ?thesis
        using a r2 r3
        by (simp add: loadMmap_record_def r1 ov name_len_def [symmetric] Let_def)
    qed
    then show "loadMmap_record ext g region e p t = Inl (Exception BadDataLength, t)" .
  }
  {
    assume a: "p + 2 \<le> e \<and> 0 < name_len \<and> p2 \<le> e \<and> \<not> exists ext g t (c_str file) True \<and>
          p2 + 5 \<le> e \<and> 0 < n \<and> int e < int (p2 + 5) + n + 1"
    then have r3: "read_bytes_mem region p2 e 1 = Inr (True, take 1 (drop p2 region), p2 + 1)"
      using e by (simp add: read_bytes_mem_eq)
    have r4: "read_bytes_mem region (p2 + 1) e 4 = Inr (True, take 4 (drop (p2 + 1) region), p2 + 5)"
      using e a by (simp add: read_bytes_mem_eq)
    have nn: "s32 (le_val (take 4 (drop (Suc p2) region))) = n"
      by (simp add: n_def)
    show "loadMmap_record ext g region e p t =
              Inl (Exception BadData,
                   t\<lparr>m_files := AList.update file
                        \<lparr>len = n, data = None, clen = - 1, cdata = None\<rparr> (m_files t)\<rparr>)"
      using a r2 r3 r4
      by (simp add: loadMmap_record_def r1 ov name_len_def [symmetric] nn Let_def)
  }
qed

subsection \<open>An invariant of the tables an instance can hold\<close>

lemma set_update:
  "x \<in> set (AList.update k v al) \<Longrightarrow> x = (k, v) \<or> x \<in> set al"
  by (induction al) (auto split: if_splits)

lemma table_inv_update:
  "table_inv t \<Longrightarrow> buffer_inv b \<Longrightarrow>
   table_inv (t\<lparr>m_files := AList.update k b (m_files t)\<rparr>)"
  by (auto simp: table_inv_def dest!: set_update)

lemma table_inv_cache_manager [simp]:
  "table_inv (t\<lparr>cache_manager := cm\<rparr>) = table_inv t"
  "table_inv (t\<lparr>m_fd := fd\<rparr>) = table_inv t"
  "table_inv (t\<lparr>m_addr := a\<rparr>) = table_inv t"
  "table_inv (t\<lparr>m_size := n\<rparr>) = table_inv t"
  by (simp_all add: table_inv_def)

lemma buffer_inv_simps [simp]:
  "buffer_inv directory_buffer"
  "buffer_inv \<lparr>len = n, data = None, clen = c, cdata = None\<rparr>"
  "0 < n \<Longrightarrow> buffer_inv \<lparr>len = n, data = Some db, clen = c, cdata = None\<rparr>"
  "0 < n \<Longrightarrow> buffer_inv \<lparr>len = m, data = d, clen = n, cdata = Some cb\<rparr>"
  "buffer_inv \<lparr>len = m, data = Some db, clen = n, cdata = Some cb\<rparr>"
  by (simp_all add: buffer_inv_def directory_buffer_def)

lemma writeDirectories_from_inv:
  "table_inv t \<Longrightarrow> table_inv (writeDirectories_from ext g sname i t)"
proof (induction ext g sname i t rule: writeDirectories_from.induct)
  case (1 ext g sname i t)
  show ?case
  proof (cases "int i < s32 (int (length sname))")
    case True
    show ?thesis
      using True "1.prems" "1.IH" [OF True]
      by (subst writeDirectories_from.simps) (simp add: Let_def table_inv_update)
  next
    case False
    then show ?thesis
      using "1.prems" by (subst writeDirectories_from.simps) simp
  qed
qed

lemma write_name_inv:
  "table_inv t \<Longrightarrow> table_inv (state_after (write_name ext g t name addDirectories))"
  by (auto simp: write_name_def writeDirectories_def writeDirectories_from_inv table_inv_update
           Let_def split: prod.splits)

lemma write_fullpath_inv:
  assumes "table_inv t"
  shows "table_inv (state_after (write_fullpath ext g t name fullpath))"
proof -
  have u: "table_inv (t\<lparr>m_files := AList.update name b (m_files t)\<rparr>)" if "buffer_inv b" for b
    using assms that by (rule table_inv_update)
  have w: "table_inv (writeDirectories ext g name (t\<lparr>m_files := AList.update name b (m_files t)\<rparr>))"
    if "buffer_inv b" for b
    using u [OF that] by (simp add: writeDirectories_def writeDirectories_from_inv)
  show ?thesis
    using assms
    by (auto simp: write_fullpath_def Let_def u w read_bytes_eq
             split: prod.splits option.splits if_splits)
qed

lemma load_payload_inv:
  "table_inv t \<Longrightarrow> 0 < n \<Longrightarrow>
   table_inv (state_after (load_payload ext onDemandUncompress file c n db t))"
  by (auto simp: load_payload_def with_data_def table_inv_update split: option.splits)

lemma load_payload_inv_cases:
  assumes "table_inv t" and "0 < n"
  shows "load_payload ext onDemandUncompress file c n db t = Inl (e, t') \<Longrightarrow> table_inv t'"
    and "load_payload ext onDemandUncompress file c n db t = Inr t' \<Longrightarrow> table_inv t'"
  using load_payload_inv [OF assms, of ext onDemandUncompress "file" c db] by auto

lemma load_record_inv:
  assumes t: "table_inv t"
  shows "load_record ext g onDemandUncompress version f t = Inl (e, t') \<Longrightarrow> table_inv t'"
    and "load_record ext g onDemandUncompress version f t = Inr (Some (f', t')) \<Longrightarrow> table_inv t'"
proof -
  have u: "table_inv (t\<lparr>m_files := AList.update k b (m_files t)\<rparr>)" if "buffer_inv b" for k b
    using t that by (rule table_inv_update)
  have u0: "table_inv (t\<lparr>m_files := AList.update k
      \<lparr>len = n, data = None, clen = - 1, cdata = None\<rparr> (m_files t)\<rparr>)" for k n
    by (rule u) simp
  show "load_record ext g onDemandUncompress version f t = Inl (e, t') \<Longrightarrow> table_inv t'"
    using t unfolding load_record_def Let_def
    by (auto simp: with_data_def table_inv_update u
             split: prod.splits if_splits sum.splits
             dest: load_payload_inv_cases [OF u0])
  show "load_record ext g onDemandUncompress version f t = Inr (Some (f', t')) \<Longrightarrow> table_inv t'"
    using t unfolding load_record_def Let_def
    by (auto simp: with_data_def table_inv_update u
             split: prod.splits if_splits sum.splits
             dest: load_payload_inv_cases [OF u0])
qed

lemma load_loop_inv:
  "table_inv t \<Longrightarrow>
   table_inv (state_after (load_loop ext g onDemandUncompress version f t))"
proof (induction ext g onDemandUncompress version f t rule: load_loop.induct)
  case (1 ext g onDemandUncompress version f t)
  show ?case
  proof (cases "load_record ext g onDemandUncompress version f t")
    case (Inl x)
    obtain e t' where x: "x = (e, t')"
      by (cases x)
    show ?thesis
      using Inl x load_record_inv(1) [OF "1.prems", of ext g onDemandUncompress version f e t']
      by (subst load_loop.simps) simp
  next
    case (Inr y)
    show ?thesis
    proof (cases y)
      case None
      then show ?thesis
        using Inr "1.prems" by (subst load_loop.simps) simp
    next
      case (Some z)
      obtain f' t' where z: "z = (f', t')"
        by (cases z)
      have "table_inv t'"
        using load_record_inv(2) [OF "1.prems"] Inr Some z by blast
      then show ?thesis
        using "1.IH" [OF Inr Some z [symmetric]] Inr Some z
        by (subst load_loop.simps) simp
    qed
  qed
qed

lemma load_inv:
  "table_inv t \<Longrightarrow>
   table_inv (state_after (load ext g t filename onDemandUncompress version))"
  by (auto simp: load_def Let_def load_loop_inv split: option.splits)

lemma loadMmap_record_inv:
  assumes t: "table_inv t"
  shows "loadMmap_record ext g region e p t = Inl (er, t') \<Longrightarrow> table_inv t'"
    and "loadMmap_record ext g region e p t = Inr (p', t') \<Longrightarrow> table_inv t'"
proof -
  have u: "table_inv (t\<lparr>m_files := AList.update k b (m_files t)\<rparr>)" if "buffer_inv b" for k b
    using t that by (rule table_inv_update)
  show "loadMmap_record ext g region e p t = Inl (er, t') \<Longrightarrow> table_inv t'"
    using t unfolding loadMmap_record_def Let_def
    by (auto simp: with_data_def table_inv_update u
             split: prod.splits if_splits sum.splits)
  show "loadMmap_record ext g region e p t = Inr (p', t') \<Longrightarrow> table_inv t'"
    using t unfolding loadMmap_record_def Let_def
    by (auto simp: with_data_def table_inv_update u
             split: prod.splits if_splits sum.splits)
qed

lemma loadMmap_loop_inv:
  "table_inv t \<Longrightarrow> table_inv (state_after (loadMmap_loop ext g region e p t))"
proof (induction ext g region e p t rule: loadMmap_loop.induct)
  case (1 ext g region e p t)
  show ?case
  proof (cases "p < e")
    case True
    show ?thesis
    proof (cases "loadMmap_record ext g region e p t")
      case (Inl x)
      obtain er t' where x: "x = (er, t')"
        by (cases x)
      show ?thesis
        using True Inl x loadMmap_record_inv(1) [OF "1.prems", of ext g region e p er t']
        by (subst loadMmap_loop.simps) simp
    next
      case (Inr y)
      obtain p' t' where y: "y = (p', t')"
        by (cases y)
      have "table_inv t'"
        using loadMmap_record_inv(2) [OF "1.prems"] Inr y by blast
      then show ?thesis
        using True Inr y "1.IH" [OF True Inr y [symmetric]]
        by (subst loadMmap_loop.simps) simp
    qed
  next
    case False
    then show ?thesis
      using "1.prems" by (subst loadMmap_loop.simps) simp
  qed
qed

lemma loadMmap_inv:
  assumes "table_inv t"
  shows "table_inv (state_after (snd (loadMmap ext g t filename version)))"
proof -
  have l: "table_inv (state_after (loadMmap_loop ext g' region n 4
      (t\<lparr>m_fd := fd, m_addr := Some region, m_size := n\<rparr>)))" for g' region n fd
    using assms by (intro loadMmap_loop_inv) simp
  have c: "table_inv (state_after (case r of Inl x \<Rightarrow> Inl x | Inr t3 \<Rightarrow> Inr (adviseOutMemory g' t3)))"
    if "table_inv (state_after r)" for r :: "(error \<times> 'a FileCache) + 'a FileCache" and g'
    using that by (cases r) (auto simp: adviseOutMemory_def)
  show ?thesis
    using assms
    by (auto simp: loadMmap_def Let_def intro!: c l split: option.splits prod.splits)
qed

lemma reachable_table_inv: "reachable t \<Longrightarrow> table_inv t"
proof (induction rule: reachable.induct)
  case (new cm)
  show ?case
    by (simp add: table_inv_def FileCache_new_def)
qed (simp_all add: write_name_inv write_fullpath_inv load_inv loadMmap_inv)

subsection \<open>Reading\<close>

text \<open>
  The test build makes the test table, and \<^verbatim>\<open>save\<close> writes the test archive for it. The
  table of the deferred load of the test archive is one an instance can hold.
\<close>

lemma example_build:
  "register_all (test_env example_files) g0 (FileCache_new ()) example_regs = Inr example_table"
  "save (test_env example_files) g0 example_table ''archive'' = Inr (Some example_archive)"
  by code_simp+


lemma example_deferred_reachable: "reachable example_deferred"
proof -
  have "state_after (load (test_env (\<lambda>p. Some example_archive)) g0 (FileCache_new ())
          ''archive'' True 1) = example_deferred"
    by code_simp
  then show ?thesis
    using reachable.load [OF reachable.new, of "test_env (\<lambda>p. Some example_archive)" g0 "()"
            "''archive''" True 1]
    by simp
qed

text \<open>
  C2. In a table that an instance can hold, for a path that is present and whose entry
  has only a compressed form (the raw data pointer is null), \<^verbatim>\<open>read\<close> called with
  \<^verbatim>\<open>compressed = false\<close> returns the compressed bytes and the compressed length and sets
  the flag to true.
\<close>

theorem read_only_compressed_form:
  assumes "reachable t" and "\<not> UseNewCache g" and "name \<noteq> []"
    and "map_of (m_files t) name = Some buf"
    and "data buf = None" and "cdata buf = Some cb"
  shows "read ext g t name n0 False = Inr (Some cb, clen buf, True)"
proof -
  from assms(4) have "buf \<in> snd ` set (m_files t)"
    by (force dest: map_of_SomeD)
  with reachable_table_inv [OF assms(1)] have "buffer_inv buf"
    by (auto simp: table_inv_def)
  with assms have "0 < clen buf"
    by (simp add: buffer_inv_def)
  with assms show ?thesis
    by (simp add: read_def)
qed

theorem read_only_compressed_form_witness:
  "read (test_env example_files) g0 example_deferred ''d/a.txt'' 0 False
     = Inr (Some [CHR 0x10, CHR ''a'', CHR 0x00], 2, True)"
  using read_only_compressed_form
    [OF example_deferred_reachable, of g0 "''d/a.txt''"
        "\<lparr>len = - 1, data = None, clen = 2, cdata = Some [CHR 0x10, CHR ''a'', CHR 0x00]\<rparr>"
        "[CHR 0x10, CHR ''a'', CHR 0x00]" "test_env example_files" 0]
  by (simp add: g0_def example_deferred_def)

text \<open>
  C10. In a table that an instance can hold, for a path that is present and whose entry
  is a directory (length \<open>-2\<close>) or a source placeholder (length \<open>-1\<close>) with null data
  and compressed pointers, \<^verbatim>\<open>read\<close> returns the null pointer, as it does for an absent
  path, although \<^verbatim>\<open>exists\<close> (and \<^verbatim>\<open>fileExists\<close> for the placeholder) is true; it
  returns a non-null pointer only for an entry of length 0, of positive length with raw
  data, or with a compressed form.
\<close>

theorem read_null_pointer:
  assumes "reachable t" and "\<not> UseNewCache g" and "name \<noteq> []"
    and "map_of (m_files t) name = Some buf"
  shows "((len buf = - 2 \<or> len buf = - 1) \<and> data buf = None \<and> cdata buf = None \<longrightarrow>
            read ext g t name n0 c0 = Inr (None, len buf, False) \<and>
            exists ext g t name True \<and>
            (len buf = - 1 \<longrightarrow> fileExists ext g t name True))
         \<and> (map_of (m_files t) other = None \<longrightarrow> read ext g t other n0 c0 = Inr (None, n0, c0))
         \<and> (\<forall>p n c. read ext g t name n0 c0 = Inr (Some p, n, c) \<longrightarrow>
               len buf = 0 \<or> (0 < len buf \<and> data buf \<noteq> None) \<or> cdata buf \<noteq> None)"
proof -
  from assms(4) have "buf \<in> snd ` set (m_files t)"
    by (force dest: map_of_SomeD)
  with reachable_table_inv [OF assms(1)] have "buffer_inv buf"
    by (auto simp: table_inv_def)
  then have "data buf \<noteq> None \<longrightarrow> 0 < len buf \<or> cdata buf \<noteq> None"
    by (simp add: buffer_inv_def)
  with assms(2-4) show ?thesis
    by (auto simp: read_def exists_def fileExists_def split: if_splits)
qed

theorem read_null_pointer_witness:
  "read (test_env example_files) g0 example_deferred ''app.php'' 7 True = Inr (None, - 1, False) \<and>
   exists (test_env example_files) g0 example_deferred ''app.php'' True \<and>
   fileExists (test_env example_files) g0 example_deferred ''app.php'' True \<and>
   read (test_env example_files) g0 example_deferred ''d'' 7 True = Inr (None, - 2, False) \<and>
   exists (test_env example_files) g0 example_deferred ''d'' True \<and>
   read (test_env example_files) g0 example_deferred ''absent'' 7 True = Inr (None, 7, True)"
  using read_null_pointer
    [OF example_deferred_reachable, of g0 "''app.php''"
        "\<lparr>len = - 1, data = None, clen = - 1, cdata = None\<rparr>"
        "test_env example_files" 7 True "''absent''"]
    read_null_pointer
    [OF example_deferred_reachable, of g0 "''d''"
        "\<lparr>len = - 2, data = None, clen = - 1, cdata = None\<rparr>"
        "test_env example_files" 7 True "''absent''"]
  by (simp add: g0_def example_deferred_def)

subsection \<open>Version detection\<close>

text \<open>
  C3, as amended. When the archive is not of the new cache format and can be opened,
  \<^verbatim>\<open>getVersion\<close> reports \<open>-1\<close> when the file has fewer than two bytes or its first
  two-byte field is greater than 0; every first field that is at most 0, not only \<open>-1\<close>,
  is taken for the marker, and then the second two-byte field is reported when the file
  has at least four bytes.
  When it has exactly two bytes the report is \<open>-1\<close>, and when it has exactly three the
  third byte \<open>c\<close> is stored over the low byte of the initial \<open>-1\<close>, which reads as
  \<open>c - 256\<close>. So it reports version 1 on the bytes FF FF 01 00, and also on 00 00 01 00.
\<close>

theorem getVersion_tag:
  assumes "filename \<noteq> []" and "\<not> isNewCache ext filename"
    and "fopen_r ext filename = Some bytes"
  shows "(length bytes < 2 \<longrightarrow> getVersion ext g filename = (g, Inr (- 1))) \<and>
         (\<forall>a b bs. bytes = a # b # bs \<longrightarrow>
            getVersion ext g filename =
              (g, Inr (if s16 (of_char a + 256 * of_char b) > 0 then - 1
                       else (case bs of
                               [] \<Rightarrow> - 1
                             | [c] \<Rightarrow> of_char c - 256
                             | c # d # _ \<Rightarrow> s16 (of_char c + 256 * of_char d)))))"
  using assms
  by (auto simp add: getVersion_def read_bytes_eq overlay_def le_bytes_2 s16_third_byte
        split: list.splits) (simp add: s16_def)

theorem getVersion_tag_witness:
  "getVersion (test_env (\<lambda>p. Some [CHR 0xFF, CHR 0xFF, CHR 0x01, CHR 0x00])) g0 ''archive''
     = (g0, Inr 1) \<and>
   getVersion (test_env (\<lambda>p. Some [CHR 0x05, CHR 0x00, CHR 0x01, CHR 0x00])) g0 ''archive''
     = (g0, Inr (- 1)) \<and>
   getVersion (test_env (\<lambda>p. Some [CHR 0x05])) g0 ''archive'' = (g0, Inr (- 1)) \<and>
   getVersion (test_env (\<lambda>p. Some [CHR 0x05, CHR 0x00])) g0 ''archive'' = (g0, Inr (- 1)) \<and>
   getVersion (test_env (\<lambda>p. Some [CHR 0xFF, CHR 0xFF])) g0 ''archive'' = (g0, Inr (- 1)) \<and>
   getVersion (test_env (\<lambda>p. Some [CHR 0x00, CHR 0x00, CHR 0x05])) g0 ''archive''
     = (g0, Inr (- 251))"
  using getVersion_tag [of "''archive''" "test_env (\<lambda>p. Some [CHR 0xFF, CHR 0xFF, CHR 0x01, CHR 0x00])"
          "[CHR 0xFF, CHR 0xFF, CHR 0x01, CHR 0x00]" g0]
        getVersion_tag [of "''archive''" "test_env (\<lambda>p. Some [CHR 0x05, CHR 0x00, CHR 0x01, CHR 0x00])"
          "[CHR 0x05, CHR 0x00, CHR 0x01, CHR 0x00]" g0]
        getVersion_tag [of "''archive''" "test_env (\<lambda>p. Some [CHR 0x05])" "[CHR 0x05]" g0]
        getVersion_tag [of "''archive''" "test_env (\<lambda>p. Some [CHR 0x05, CHR 0x00])"
          "[CHR 0x05, CHR 0x00]" g0]
        getVersion_tag [of "''archive''" "test_env (\<lambda>p. Some [CHR 0xFF, CHR 0xFF])"
          "[CHR 0xFF, CHR 0xFF]" g0]
        getVersion_tag [of "''archive''" "test_env (\<lambda>p. Some [CHR 0x00, CHR 0x00, CHR 0x05])"
          "[CHR 0x00, CHR 0x00, CHR 0x05]" g0]
  by (simp add: test_env_def s16_def)

text \<open>
  C3 as stated fails: on the bytes 00 00 01 00 the first field is 0, which is not the
  marker \<open>-1\<close>, and \<^verbatim>\<open>getVersion\<close> does not report \<open>-1\<close> (it reports 1).
\<close>

theorem getVersion_zero_tag:
  "snd (getVersion (test_env (\<lambda>p. Some [CHR 0x00, CHR 0x00, CHR 0x01, CHR 0x00])) g0 ''archive'')
     \<noteq> Inr (- 1)"
  by (simp add: getVersion_def read_bytes_eq overlay_def test_env_def s16_def le_bytes_2)

subsection \<open>The compression gate\<close>

text \<open>
  C4, as amended. When a non-empty compressible file of \<open>S\<close> bytes is registered
  (\<open>3 * S\<close> within the range of \<^verbatim>\<open>int\<close>) and the codec returns \<open>C\<close> bytes, the entry
  keeps the compressed form if and only if \<open>C < (S * 3) div 4\<close> in integer arithmetic;
  otherwise only the raw bytes are kept. A compressed size of \<open>0.74 * S\<close> is kept
  when \<open>S\<close> is at least 100, and a compressed size of \<open>0.80 * S\<close> is never kept.
\<close>

theorem compression_gate:
  assumes "\<not> UseNewCache g" and "name \<noteq> []" and "fullpath \<noteq> []"
    and "\<not> exists ext g t name True"
    and "stat ext fullpath = Some S" and "fopen_r ext fullpath = Some contents"
    and "S \<le> length contents" and "0 < S" and "3 * S < 2147483648"
    and "is_compressible_file ext name"
    and "gzencode ext (take S contents) = Some compressed"
  shows "(\<exists>t'. write_fullpath ext g t name fullpath = Inr t' \<and>
           map_of (m_files t') name =
             Some (if length compressed < (S * 3) div 4
                   then \<lparr>len = int S, data = Some (take S contents),
                         clen = int (length compressed), cdata = Some compressed\<rparr>
                   else \<lparr>len = int S, data = Some (take S contents),
                         clen = - 1, cdata = None\<rparr>)) \<and>
         (100 * length compressed = 74 * S \<and> 100 \<le> S \<longrightarrow> length compressed < (S * 3) div 4) \<and>
         (100 * length compressed = 80 * S \<longrightarrow> \<not> length compressed < (S * 3) div 4)"
proof -
  have n: "s32 (int S) = int S"
    using assms by (simp add: s32_id)
  have n3: "s32 (int S * 3) = int S * 3"
    using assms by (simp add: s32_id)
  have d: "c_div (int S * 3) 4 = int ((S * 3) div 4)"
    using assms by (simp add: c_div_def zdiv_int)
  have lt: "int (length compressed) < int (S * 3 div 4) \<longleftrightarrow> length compressed < S * 3 div 4"
    by simp
  have w: "\<exists>t'. write_fullpath ext g t name fullpath = Inr t' \<and>
           map_of (m_files t') name =
             Some (if length compressed < (S * 3) div 4
                   then \<lparr>len = int S, data = Some (take S contents),
                         clen = int (length compressed), cdata = Some compressed\<rparr>
                   else \<lparr>len = int S, data = Some (take S contents),
                         clen = - 1, cdata = None\<rparr>)"
    using assms
    by (simp add: write_fullpath_def n n3 d read_bytes_eq Let_def writeDirectories_self
          update_conv' del: of_nat_mult of_nat_div)
  have a: "100 * length compressed = 74 * S \<and> 100 \<le> S \<longrightarrow> length compressed < (S * 3) div 4"
    by arith
  have b: "100 * length compressed = 80 * S \<longrightarrow> \<not> length compressed < (S * 3) div 4"
    by arith
  show ?thesis
    using w a b by blast
qed

theorem compression_gate_witness:
  "(\<exists>t'. write_fullpath (gate_env 100 74) g0 (FileCache_new ()) ''a.css'' ''/src/a.css'' = Inr t' \<and>
      map_of (m_files t') ''a.css'' =
        Some \<lparr>len = 100, data = Some (replicate 100 (CHR ''x'')),
              clen = 74, cdata = Some (replicate 74 (CHR ''z''))\<rparr>)"
  using compression_gate [of g0 "''a.css''" "''/src/a.css''" "gate_env 100 74" "FileCache_new ()"
          100 "replicate 100 (CHR ''x'')" "replicate 74 (CHR ''z'')"]
  by (simp add: g0_def gate_env_def test_env_def exists_def FileCache_new_def)

text \<open>
  C4 as stated fails at \<open>S = 50\<close> and \<open>C = 37 = 0.74 * S\<close>: \<open>(50 * 3) div 4 = 37\<close>, and
  the compressed form is discarded.
\<close>

theorem compression_gate_50_37:
  "write_fullpath (gate_env 50 37) g0 (FileCache_new ()) ''a.css'' ''/src/a.css'' =
     Inr \<lparr>m_fd = - 1, m_size = 0, m_addr = None,
          m_files = [(''a.css'', \<lparr>len = 50, data = Some (replicate 50 (CHR ''x'')),
                                  clen = - 1, cdata = None\<rparr>)],
          cache_manager = ()\<rparr>"
  by (simp add: write_fullpath_def g0_def gate_env_def test_env_def exists_def FileCache_new_def
        read_bytes_eq s32_def c_div_def Let_def writeDirectories_def writeDirectories_from.simps)

subsection \<open>The process-wide configuration\<close>

text \<open>
  The two embeddings agree: on the state of the process each operation returns what the
  function of the first embedding returns for the static members and the instance of that
  state, and it leaves the instance that function leaves.
\<close>

lemma GetRelativePath_st_eq:
  "GetRelativePath_st path w = (GetRelativePath (statics w) path, w)"
  by (simp add: GetRelativePath_st_def GetRelativePath_def Let_def)

lemma relative_name_eq:
  "relative_name name isRelative w =
     (if isRelative then name else c_str (GetRelativePath (statics w) name), w)"
  by (simp add: relative_name_def GetRelativePath_st_eq)

lemma exists_st_eq:
  "exists_st ext name isRelative w = (exists ext (statics w) (self w) name isRelative, w)"
  by (simp add: exists_st_def exists_def relative_name_eq Let_def)

lemma fileExists_st_eq:
  "fileExists_st ext name isRelative w = (fileExists ext (statics w) (self w) name isRelative, w)"
  by (simp add: fileExists_st_def fileExists_def relative_name_eq Let_def split: option.splits)

lemma dirExists_st_eq:
  "dirExists_st ext name isRelative w = (dirExists ext (statics w) (self w) name isRelative, w)"
  by (simp add: dirExists_st_def dirExists_def relative_name_eq Let_def split: option.splits)

lemma read_st_eq:
  "read_st ext name n0 compressed0 w = (read ext (statics w) (self w) name n0 compressed0, w)"
  by (auto simp add: read_st_def read_def split: option.splits prod.splits)

lemma fileSize_st_eq:
  "fileSize_st ext name isRelative w = (fileSize ext (statics w) (self w) name isRelative, w)"
  by (simp add: fileSize_st_def fileSize_def relative_name_eq Let_def split: option.splits)

lemma with_self_simps [simp]:
  "statics (with_self w t) = statics w" "self (with_self w t) = t"
  "with_self (with_self w t) t' = with_self w t'" "with_self w (self w) = w"
  by (simp_all add: with_self_def)

lemma set_entry_eq:
  "set_entry name b (with_self w t) = with_self w (t\<lparr>m_files := AList.update name b (m_files t)\<rparr>)"
  by (simp add: set_entry_def with_self_def)

lemma writeDirectories_from_st_eq':
  "statics w = g \<Longrightarrow>
   writeDirectories_from_st ext sname i (with_self w t) =
     with_self w (writeDirectories_from ext g sname i t)"
proof (induction ext g sname i t rule: writeDirectories_from.induct)
  case (1 ext g sname i t)
  show ?case
  proof (cases "int i < s32 (int (length sname))")
    case True
    show ?thesis
      using True "1.IH" [OF True "1.prems"] "1.prems"
      by (subst writeDirectories_from_st.simps, subst writeDirectories_from.simps)
         (auto simp add: exists_st_eq set_entry_eq Let_def split: if_splits)
  next
    case False
    then show ?thesis
      by (subst writeDirectories_from_st.simps, subst writeDirectories_from.simps) simp
  qed
qed

lemma writeDirectories_from_st_eq:
  "writeDirectories_from_st ext sname i (with_self w t) =
     with_self w (writeDirectories_from ext (statics w) sname i t)"
  by (rule writeDirectories_from_st_eq') simp

lemma writeDirectories_st_eq:
  "writeDirectories_st ext name (with_self w t) =
     with_self w (writeDirectories ext (statics w) name t)"
  by (simp add: writeDirectories_st_def writeDirectories_def writeDirectories_from_st_eq)

lemma set_entry_self:
  "set_entry name b w = with_self w ((self w)\<lparr>m_files := AList.update name b (m_files (self w))\<rparr>)"
  using set_entry_eq [of name b w "self w"] by simp

lemma self_update_with_self: "w\<lparr>self := t\<rparr> = with_self w t"
  by (simp add: with_self_def)

lemma write_name_st_eq:
  "write_name_st ext name addDirectories w =
     lift_st (write_name ext (statics w) (self w) name addDirectories) w"
proof -
  have s: "set_entry name b w = with_self w ((self w)\<lparr>m_files := AList.update name b (m_files (self w))\<rparr>)"
    for b
    using set_entry_eq [of name b w "self w"] by simp
  have c: "w\<lparr>self := t\<rparr> = with_self w t" for t
    by (simp add: with_self_def)
  show ?thesis
    by (simp add: write_name_st_def write_name_def lift_st_def exists_st_eq s c
          writeDirectories_st_eq Let_def split: prod.splits)
qed

lemma write_fullpath_st_eq:
  "write_fullpath_st ext name fullpath w =
     lift_st (write_fullpath ext (statics w) (self w) name fullpath) w"
  by (simp add: write_fullpath_st_def write_fullpath_def lift_st_def exists_st_eq set_entry_self
        set_entry_eq self_update_with_self writeDirectories_st_eq Let_def
        split: prod.splits option.splits)

lemma save_entry_st_eq: "save_entry_st file w = (save_entry file, w)"
  by (simp add: save_entry_st_def save_entry_def Let_def split: option.splits)

lemma save_entries_st_eq: "save_entries_st files w = (save_entries files, w)"
  by (induction files) (simp_all add: save_entry_st_eq split: sum.splits)

lemma save_st_eq: "save_st ext filename w = (save ext (statics w) (self w) filename, w)"
  by (simp add: save_st_def save_def save_entries_st_eq split: sum.splits)

lemma getVersion_st_eq:
  "getVersion_st ext filename w =
     (snd (getVersion ext (statics w) filename),
      w\<lparr>statics := fst (getVersion ext (statics w) filename)\<rparr>)"
  by (simp add: getVersion_st_def getVersion_def Let_def split: option.splits prod.splits)

lemma load_payload_st_eq:
  "load_payload_st ext onDemandUncompress file c n db (with_self w t) =
     lift_st (load_payload ext onDemandUncompress file c n db t) w"
  by (simp add: load_payload_st_def load_payload_def lift_st_def set_entry_eq with_data_def
        split: option.splits)

lemma load_record_st_eq:
  "load_record_st ext onDemandUncompress version f w =
     (case load_record ext (statics w) onDemandUncompress version f (self w) of
        Inl (e, t) \<Rightarrow> (Inl e, with_self w t)
      | Inr None \<Rightarrow> (Inr None, w)
      | Inr (Some (f', t)) \<Rightarrow> (Inr (Some f'), with_self w t))"
  by (simp add: load_record_st_def load_record_def exists_st_eq set_entry_self set_entry_eq
        load_payload_st_eq lift_st_def with_data_def Let_def
        split: prod.splits sum.splits)

lemma loadMmap_record_st_eq:
  "loadMmap_record_st ext region e p w =
     (case loadMmap_record ext (statics w) region e p (self w) of
        Inl (er, t) \<Rightarrow> (Inl er, with_self w t)
      | Inr (p', t) \<Rightarrow> (Inr p', with_self w t))"
  by (simp add: loadMmap_record_st_def loadMmap_record_def exists_st_eq set_entry_self set_entry_eq
        with_data_def Let_def
        split: prod.splits sum.splits)

lemma load_loop_st_eq':
  "statics w = g \<Longrightarrow>
   load_loop_st ext onDemandUncompress version f (with_self w t) =
     lift_st (load_loop ext g onDemandUncompress version f t) w"
proof (induction ext g onDemandUncompress version f t rule: load_loop.induct)
  case (1 ext g onDemandUncompress version f t)
  show ?case
  proof (cases "load_record ext g onDemandUncompress version f t")
    case (Inl x)
    then show ?thesis
      using "1.prems"
      by (subst load_loop_st.simps, subst load_loop.simps)
         (simp add: load_record_st_eq lift_st_def split: prod.splits)
  next
    case (Inr r)
    show ?thesis
    proof (cases r)
      case None
      then show ?thesis
        using Inr "1.prems"
        by (subst load_loop_st.simps, subst load_loop.simps)
           (simp add: load_record_st_eq lift_st_def)
    next
      case (Some ft)
      obtain f' t' where ft: "ft = (f', t')"
        by (cases ft)
      show ?thesis
        using Inr Some ft "1.prems" "1.IH" [OF Inr Some ft [symmetric] "1.prems"]
        by (subst load_loop_st.simps, subst load_loop.simps)
           (simp add: load_record_st_eq)
    qed
  qed
qed

lemma load_st_eq:
  "load_st ext filename onDemandUncompress version w =
     lift_st (load ext (statics w) (self w) filename onDemandUncompress version) w"
  using load_loop_st_eq' [of w "statics w" ext onDemandUncompress version _ "self w"]
  by (simp add: load_st_def load_def lift_st_def Let_def split: option.splits)

lemma loadMmap_loop_st_eq':
  "statics w = g \<Longrightarrow>
   loadMmap_loop_st ext region e p (with_self w t) =
     lift_st (loadMmap_loop ext g region e p t) w"
proof (induction ext g region e p t rule: loadMmap_loop.induct)
  case (1 ext g region e p t)
  show ?case
  proof (cases "p < e")
    case False
    then show ?thesis
      by (subst loadMmap_loop_st.simps, subst loadMmap_loop.simps) (simp add: lift_st_def)
  next
    case True
    show ?thesis
    proof (cases "loadMmap_record ext g region e p t")
      case (Inl x)
      then show ?thesis
        using True "1.prems"
        by (subst loadMmap_loop_st.simps, subst loadMmap_loop.simps)
           (simp add: loadMmap_record_st_eq lift_st_def split: prod.splits)
    next
      case (Inr pt)
      obtain p' t' where pt: "pt = (p', t')"
        by (cases pt)
      show ?thesis
        using True Inr pt "1.prems" "1.IH" [OF True Inr pt [symmetric] "1.prems"]
        by (subst loadMmap_loop_st.simps, subst loadMmap_loop.simps)
           (simp add: loadMmap_record_st_eq)
    qed
  qed
qed

lemma loadMmap_st_eq:
  "loadMmap_st ext filename version w =
     (case loadMmap ext (statics w) (self w) filename version of
        (g', r) \<Rightarrow> lift_st r (w\<lparr>statics := g'\<rparr>))"
proof -
  have l: "loadMmap_loop_st ext region e p (w'\<lparr>self := t\<rparr>) =
      lift_st (loadMmap_loop ext (statics w') region e p t) w'" for region e p w' t
    using loadMmap_loop_st_eq' [of w' "statics w'" ext region e p t]
    by (simp add: with_self_def)
  show ?thesis
    by (simp add: loadMmap_st_def loadMmap_def lift_st_def l with_self_def adviseOutMemory_st_def
          adviseOutMemory_def Let_def split: option.splits prod.splits sum.splits)
qed

lemma statics_lift_st [simp]: "statics (snd (lift_st r w)) = statics w"
  by (simp add: lift_st_def split: sum.splits prod.splits)

text \<open>
  C9, as amended. No operation changes \<^verbatim>\<open>SourceRoot\<close>. \<^verbatim>\<open>UseNewCache\<close> is changed only
  by \<^verbatim>\<open>getVersion\<close> and \<^verbatim>\<open>loadMmap\<close>, and only to true; each of the two sets it when it is
  called with a file name that is not empty on an archive detected to be of the new cache
  format. The constructor, both forms of \<^verbatim>\<open>write\<close>, \<^verbatim>\<open>save\<close>, \<^verbatim>\<open>load\<close>,
  \<^verbatim>\<open>adviseOutMemory\<close> and the queries leave it as it is.
\<close>

theorem globals_frame:
  "SourceRoot (statics (run ext opn w)) = SourceRoot (statics w) \<and>
   (UseNewCache (statics (run ext opn w)) \<noteq> UseNewCache (statics w) \<longrightarrow>
      UseNewCache (statics (run ext opn w)) \<and>
      (\<exists>filename. filename \<noteq> [] \<and> isNewCache ext filename \<and>
         (opn = GetVersion filename \<or> (\<exists>version. opn = LoadMmap filename version)))) \<and>
   (\<forall>filename version.
      filename \<noteq> [] \<and> isNewCache ext filename \<and>
      (opn = GetVersion filename \<or> opn = LoadMmap filename version) \<longrightarrow>
      UseNewCache (statics (run ext opn w)))"
proof (cases opn)
  case (GetVersion filename)
  then show ?thesis
    by (auto simp: getVersion_st_def Let_def split: option.splits prod.splits if_splits)
next
  case (LoadMmap filename version)
  have a: "SourceRoot (statics (snd (loadMmap_st ext filename version w))) = SourceRoot (statics w)"
    by (simp add: loadMmap_st_eq loadMmap_def Let_def split: option.splits prod.splits)
  have b: "UseNewCache (statics (snd (loadMmap_st ext filename version w))) =
      (UseNewCache (statics w) \<or> filename \<noteq> [] \<and> isNewCache ext filename)"
    by (simp add: loadMmap_st_eq loadMmap_def Let_def split: option.splits prod.splits)
  show ?thesis
    using LoadMmap a b by auto
qed (simp_all add: FileCache_st_def write_name_st_eq write_fullpath_st_eq save_st_eq load_st_eq
       adviseOutMemory_st_def fileExists_st_eq dirExists_st_eq exists_st_eq read_st_eq
       fileSize_st_eq)

theorem globals_frame_witness:
  "SourceRoot (statics (run ((test_env (\<lambda>p. None))\<lparr>isNewCache := (\<lambda>p. True)\<rparr>)
      (LoadMmap ''archive'' 1) \<lparr>statics = g0, self = FileCache_new ()\<rparr>)) = SourceRoot g0 \<and>
   UseNewCache (statics (run ((test_env (\<lambda>p. None))\<lparr>isNewCache := (\<lambda>p. True)\<rparr>)
      (LoadMmap ''archive'' 1) \<lparr>statics = g0, self = FileCache_new ()\<rparr>)) \<and>
   UseNewCache (statics (run (test_env (\<lambda>p. Some example_archive))
      (Load ''archive'' True 1) \<lparr>statics = g0, self = FileCache_new ()\<rparr>)) = UseNewCache g0 \<and>
   self (run (test_env (\<lambda>p. Some example_archive))
      (Load ''archive'' True 1) \<lparr>statics = g0, self = FileCache_new ()\<rparr>) = example_deferred"
proof -
  have l: "load (test_env (\<lambda>p. Some example_archive)) g0 (FileCache_new ()) ''archive'' True 1 =
      Inr example_deferred"
    by code_simp
  show ?thesis
    using globals_frame [of "(test_env (\<lambda>p. None))\<lparr>isNewCache := (\<lambda>p. True)\<rparr>"
            "LoadMmap ''archive'' 1" "\<lparr>statics = g0, self = FileCache_new ()\<rparr>"]
          globals_frame [of "test_env (\<lambda>p. Some example_archive)"
            "Load ''archive'' True 1" "\<lparr>statics = g0, self = FileCache_new ()\<rparr>"]
    by (auto simp: load_st_eq lift_st_def l)
qed

text \<open>
  C9 as stated fails: \<^verbatim>\<open>getVersion\<close> on an archive of the new cache format sets
  \<^verbatim>\<open>UseNewCache\<close>.
\<close>

theorem getVersion_sets_UseNewCache:
  "getVersion ((test_env (\<lambda>p. None))\<lparr>isNewCache := (\<lambda>p. True)\<rparr>) g0 ''archive'' =
     (g0\<lparr>UseNewCache := True\<rparr>, Inr 2) \<and>
   UseNewCache (fst (getVersion ((test_env (\<lambda>p. None))\<lparr>isNewCache := (\<lambda>p. True)\<rparr>) g0
      ''archive'')) \<noteq> UseNewCache g0 \<and>
   UseNewCache (statics (run ((test_env (\<lambda>p. None))\<lparr>isNewCache := (\<lambda>p. True)\<rparr>)
      (GetVersion ''archive'') \<lparr>statics = g0, self = FileCache_new ()\<rparr>)) \<noteq>
     UseNewCache (statics \<lparr>statics = g0, self = FileCache_new ()\<rparr>)"
  by (simp add: getVersion_def getVersion_st_def test_env_def g0_def)

subsection \<open>Directory synthesis\<close>

text \<open>
  C8, as amended. With the alternate backend off, registering the path \<open>a/b/c\<close> when it
  is not present succeeds, as a placeholder with directory synthesis and as a file of
  less than \<open>2^31\<close> bytes that can be read, and makes
  \<^verbatim>\<open>fileExists\<close> true for \<open>a/b/c\<close>. For each of the prefixes \<open>a\<close> and \<open>a/b\<close> (the
  prefixes ending before a slash that is not the first character): when the prefix was not
  present a directory entry is created and \<^verbatim>\<open>dirExists\<close> becomes true; when it was
  present its entry is left as it was, so \<^verbatim>\<open>dirExists\<close> is true of it only if it was a
  directory before. No other key changes, so no key that is new ends with a slash.
\<close>

theorem directory_synthesis:
  assumes "\<not> UseNewCache g"
  shows "(\<not> exists ext g t ''a/b/c'' True \<longrightarrow>
            (\<exists>t'. write_name ext g t ''a/b/c'' True = Inr t') \<and>
            (fullpath \<noteq> [] \<and> stat ext fullpath = Some S \<and> S < 2147483648 \<and>
             (0 < S \<longrightarrow> (\<exists>contents. fopen_r ext fullpath = Some contents \<and>
                                     S \<le> length contents)) \<longrightarrow>
               (\<exists>t'. write_fullpath ext g t ''a/b/c'' fullpath = Inr t'))) \<and>
         (\<forall>t'. write_name ext g t ''a/b/c'' True = Inr t' \<or>
               write_fullpath ext g t ''a/b/c'' fullpath = Inr t' \<longrightarrow>
            fileExists ext g t' ''a/b/c'' True \<and>
            (\<forall>d \<in> {''a'', ''a/b''}.
               (\<not> exists ext g t d True \<longrightarrow>
                  map_of (m_files t') d = Some directory_buffer \<and> dirExists ext g t' d True) \<and>
               (exists ext g t d True \<longrightarrow>
                  map_of (m_files t') d = map_of (m_files t) d \<and>
                  dirExists ext g t' d True = dirExists ext g t d True)) \<and>
            (\<forall>k. k \<notin> {''a'', ''a/b'', ''a/b/c''} \<longrightarrow>
                 map_of (m_files t') k = map_of (m_files t) k) \<and>
            (\<forall>k. map_of (m_files t') k \<noteq> None \<and> map_of (m_files t) k = None \<longrightarrow>
                 k \<noteq> [] \<and> last k \<noteq> CHR ''/''))"
proof -
  have nul: "NUL \<notin> set ''a/b/c''"
    by (simp add: NUL_def)
  note wd = writeDirectories_lookup [OF assms nul]
  have a: "\<not> exists ext g t ''a/b/c'' True \<longrightarrow>
            (\<exists>t'. write_name ext g t ''a/b/c'' True = Inr t') \<and>
            (fullpath \<noteq> [] \<and> stat ext fullpath = Some S \<and> S < 2147483648 \<and>
             (0 < S \<longrightarrow> (\<exists>contents. fopen_r ext fullpath = Some contents \<and>
                                     S \<le> length contents)) \<longrightarrow>
               (\<exists>t'. write_fullpath ext g t ''a/b/c'' fullpath = Inr t'))"
  proof (intro impI conjI)
    assume "\<not> exists ext g t ''a/b/c'' True"
    then show "\<exists>t'. write_name ext g t ''a/b/c'' True = Inr t'"
      using assms by (simp add: write_name_def)
  next
    assume nex: "\<not> exists ext g t ''a/b/c'' True"
      and "fullpath \<noteq> [] \<and> stat ext fullpath = Some S \<and> S < 2147483648 \<and>
             (0 < S \<longrightarrow> (\<exists>contents. fopen_r ext fullpath = Some contents \<and>
                                     S \<le> length contents))"
    then show "\<exists>t'. write_fullpath ext g t ''a/b/c'' fullpath = Inr t'"
      using write_fullpath_returns [OF assms _ _ nex, of fullpath S] by simp
  qed
  have b: "fileExists ext g t' ''a/b/c'' True \<and>
            (\<forall>d \<in> {''a'', ''a/b''}.
               (\<not> exists ext g t d True \<longrightarrow>
                  map_of (m_files t') d = Some directory_buffer \<and> dirExists ext g t' d True) \<and>
               (exists ext g t d True \<longrightarrow>
                  map_of (m_files t') d = map_of (m_files t) d \<and>
                  dirExists ext g t' d True = dirExists ext g t d True)) \<and>
            (\<forall>k. k \<notin> {''a'', ''a/b'', ''a/b/c''} \<longrightarrow>
                 map_of (m_files t') k = map_of (m_files t) k) \<and>
            (\<forall>k. map_of (m_files t') k \<noteq> None \<and> map_of (m_files t) k = None \<longrightarrow>
                 k \<noteq> [] \<and> last k \<noteq> CHR ''/'')"
    if t': "t' = writeDirectories ext g ''a/b/c'' (t\<lparr>m_files := AList.update ''a/b/c'' b (m_files t)\<rparr>)"
      and b: "- 1 \<le> len b" for t' b
    using assms b unfolding t'
    by (auto simp add: wd dir_prefixes_abc fileExists_def dirExists_def exists_def update_conv'
          directory_buffer_def)
  have c: "\<exists>b. - 1 \<le> len b \<and>
      t' = writeDirectories ext g ''a/b/c'' (t\<lparr>m_files := AList.update ''a/b/c'' b (m_files t)\<rparr>)"
    if "write_name ext g t ''a/b/c'' True = Inr t'" for t'
    using that assms
    by (intro exI [of _ "\<lparr>len = - 1, data = None, clen = - 1, cdata = None\<rparr>"])
       (auto simp: write_name_def split: if_splits)
  have d: "\<exists>b. - 1 \<le> len b \<and>
      t' = writeDirectories ext g ''a/b/c'' (t\<lparr>m_files := AList.update ''a/b/c'' b (m_files t)\<rparr>)"
    if "write_fullpath ext g t ''a/b/c'' fullpath = Inr t'" for t'
  proof -
    from write_fullpath_success [OF assms that] obtain b where
      "file_buffer ext b" and
      "t' = writeDirectories ext g ''a/b/c'' (t\<lparr>m_files := AList.update ''a/b/c'' b (m_files t)\<rparr>)"
      by blast
    moreover from this have "- 1 \<le> len b"
      by (auto simp: file_buffer_def)
    ultimately show ?thesis
      by blast
  qed
  show ?thesis
  proof (rule conjI [OF a], rule allI, rule impI)
    fix t'
    assume "write_name ext g t ''a/b/c'' True = Inr t' \<or>
            write_fullpath ext g t ''a/b/c'' fullpath = Inr t'"
    then obtain b where
      "t' = writeDirectories ext g ''a/b/c'' (t\<lparr>m_files := AList.update ''a/b/c'' b (m_files t)\<rparr>)"
      and "- 1 \<le> len b"
      using c d by blast
    then show "fileExists ext g t' ''a/b/c'' True \<and>
            (\<forall>d \<in> {''a'', ''a/b''}.
               (\<not> exists ext g t d True \<longrightarrow>
                  map_of (m_files t') d = Some directory_buffer \<and> dirExists ext g t' d True) \<and>
               (exists ext g t d True \<longrightarrow>
                  map_of (m_files t') d = map_of (m_files t) d \<and>
                  dirExists ext g t' d True = dirExists ext g t d True)) \<and>
            (\<forall>k. k \<notin> {''a'', ''a/b'', ''a/b/c''} \<longrightarrow>
                 map_of (m_files t') k = map_of (m_files t) k) \<and>
            (\<forall>k. map_of (m_files t') k \<noteq> None \<and> map_of (m_files t) k = None \<longrightarrow>
                 k \<noteq> [] \<and> last k \<noteq> CHR ''/'')"
      by (rule b)
  qed
qed

theorem directory_synthesis_witness:
  "write_name (test_env example_files) g0 (FileCache_new ()) ''a/b/c'' True = Inr abc_placeholder \<and>
   write_fullpath (test_env example_files) g0 (FileCache_new ()) ''a/b/c'' ''/src/a.txt'' =
     Inr abc_file \<and>
   fileExists (test_env example_files) g0 abc_placeholder ''a/b/c'' True \<and>
   dirExists (test_env example_files) g0 abc_placeholder ''a'' True \<and>
   dirExists (test_env example_files) g0 abc_placeholder ''a/b'' True \<and>
   fileExists (test_env example_files) g0 abc_file ''a/b/c'' True \<and>
   dirExists (test_env example_files) g0 abc_file ''a'' True \<and>
   dirExists (test_env example_files) g0 abc_file ''a/b'' True"
proof -
  have w: "write_name (test_env example_files) g0 (FileCache_new ()) ''a/b/c'' True =
      Inr abc_placeholder"
    by code_simp
  have f: "write_fullpath (test_env example_files) g0 (FileCache_new ()) ''a/b/c'' ''/src/a.txt'' =
      Inr abc_file"
    by code_simp
  have g: "\<not> UseNewCache g0"
    by (simp add: g0_def)
  show ?thesis
    using directory_synthesis [OF g, of "test_env example_files" "FileCache_new ()" "''/src/a.txt''" 16]
      w f
    by (simp add: exists_def g0_def FileCache_new_def test_env_def example_files_def)
qed

text \<open>
  C8 as stated fails when a prefix is present and is not a directory: after \<open>a\<close> has
  been registered as a placeholder, registering \<open>a/b/c\<close> succeeds and \<^verbatim>\<open>dirExists\<close> is
  false for \<open>a\<close>.
\<close>

theorem directory_not_synthesised:
  "write_name (test_env example_files) g0 (FileCache_new ()) ''a'' True = Inr a_placeholder \<and>
   write_name (test_env example_files) g0 a_placeholder ''a/b/c'' True =
     Inr ((FileCache_new ())\<lparr>m_files :=
        [(''a'', \<lparr>len = - 1, data = None, clen = - 1, cdata = None\<rparr>),
         (''a/b/c'', \<lparr>len = - 1, data = None, clen = - 1, cdata = None\<rparr>),
         (''a/b'', directory_buffer)]\<rparr>) \<and>
   \<not> dirExists (test_env example_files) g0
     ((FileCache_new ())\<lparr>m_files :=
        [(''a'', \<lparr>len = - 1, data = None, clen = - 1, cdata = None\<rparr>),
         (''a/b/c'', \<lparr>len = - 1, data = None, clen = - 1, cdata = None\<rparr>),
         (''a/b'', directory_buffer)]\<rparr>) ''a'' True"
  by code_simp

subsection \<open>The payload of a record in the owned-deserialisation loader\<close>




subsection \<open>Bounds in the zero-copy mapped loader\<close>

text \<open>
  C7. When the mapping holds the \<open>e\<close> bytes of the file, \<^verbatim>\<open>loadMmap\<close> never reads
  outside the region, and a field that would cross the end of the region is a format
  error: the name length (\<open>BadFileNameLength\<close>), the name (\<open>BadFileName\<close>), the
  compressed flag and the payload length (\<open>BadDataLength\<close>), and the payload with its
  terminator (\<open>BadData\<close>).
\<close>

theorem mapped_loader_bounds:
  fixes region :: "char list" and p e :: nat
  assumes e: "e \<le> length region"
  defines "name_len \<equiv> s16 (le_val (take 2 (drop p region)))"
  defines "p2 \<equiv> p + 2 + nat name_len"
  defines "file \<equiv> take (nat name_len) (drop (p + 2) region)"
  defines "n \<equiv> s32 (le_val (take 4 (drop (p2 + 1) region)))"
  shows "(\<forall>q t t'. loadMmap_loop ext g region e q t \<noteq> Inl (OutOfBounds, t')) \<and>
         (\<forall>fd filename version t t'.
            stat ext filename = Some e \<and> mmap ext fd e = Some region \<and>
            open_rdonly ext filename = fd \<longrightarrow>
            snd (loadMmap ext g t filename version) \<noteq> Inl (OutOfBounds, t')) \<and>
         (e < p + 2 \<longrightarrow>
            loadMmap_record ext g region e p t = Inl (Exception BadFileNameLength, t)) \<and>
         (p + 2 \<le> e \<and> 0 < name_len \<and> e < p2 \<longrightarrow>
            loadMmap_record ext g region e p t = Inl (Exception BadFileName, t)) \<and>
         (p + 2 \<le> e \<and> 0 < name_len \<and> p2 \<le> e \<and> \<not> exists ext g t (c_str file) True \<and>
          e < p2 + 5 \<longrightarrow>
            loadMmap_record ext g region e p t = Inl (Exception BadDataLength, t)) \<and>
         (p + 2 \<le> e \<and> 0 < name_len \<and> p2 \<le> e \<and> \<not> exists ext g t (c_str file) True \<and>
          p2 + 5 \<le> e \<and> 0 < n \<and> int e < int (p2 + 5) + n + 1 \<longrightarrow>
            loadMmap_record ext g region e p t =
              Inl (Exception BadData,
                   t\<lparr>m_files := AList.update file
                        \<lparr>len = n, data = None, clen = - 1, cdata = None\<rparr> (m_files t)\<rparr>))"
proof -
  have a: "\<forall>q t t'. loadMmap_loop ext g region e q t \<noteq> Inl (OutOfBounds, t')"
    using e by (simp add: loadMmap_loop_in_bounds)
  have b: "\<forall>fd filename version t t'.
            stat ext filename = Some e \<and> mmap ext fd e = Some region \<and>
            open_rdonly ext filename = fd \<longrightarrow>
            snd (loadMmap ext g t filename version) \<noteq> Inl (OutOfBounds, t')"
    using e
    by (auto simp: loadMmap_def Let_def loadMmap_loop_in_bounds
             split: if_splits option.splits prod.splits sum.splits)
  show ?thesis
    using a b loadMmap_record_truncated [OF e, of p ext g t]
    unfolding name_len_def p2_def file_def n_def
    by blast
qed

theorem mapped_loader_bounds_witness:
  "loadMmap_record (test_env (\<lambda>p. Some archive_truncated)) g0 archive_truncated 14 4
      (FileCache_new ()) =
     Inl (Exception BadData,
          (FileCache_new ())\<lparr>m_files :=
             [(''a'', \<lparr>len = 5, data = None, clen = - 1, cdata = None\<rparr>)]\<rparr>) \<and>
   snd (loadMmap (test_env (\<lambda>p. Some archive_truncated)) g0 (FileCache_new ()) ''archive'' 1) =
     Inl (Exception BadData,
          \<lparr>m_fd = 3, m_size = 14, m_addr = Some archive_truncated,
           m_files = [(''a'', \<lparr>len = 5, data = None, clen = - 1, cdata = None\<rparr>)],
           cache_manager = ()\<rparr>)"
proof -
  have r: "loadMmap_record (test_env (\<lambda>p. Some archive_truncated)) g0 archive_truncated 14 4
      (FileCache_new ()) =
     Inl (Exception BadData,
          (FileCache_new ())\<lparr>m_files :=
             [(''a'', \<lparr>len = 5, data = None, clen = - 1, cdata = None\<rparr>)]\<rparr>)"
    using mapped_loader_bounds [where e = 14 and region = archive_truncated and p = 4
            and ext = "test_env (\<lambda>p. Some archive_truncated)" and g = g0
            and t = "FileCache_new ()"]
    by (simp add: archive_truncated_def s16_def s32_def exists_def g0_def FileCache_new_def
          c_str_def NUL_def)
  have l: "snd (loadMmap (test_env (\<lambda>p. Some archive_truncated)) g0 (FileCache_new ()) ''archive'' 1) =
     Inl (Exception BadData,
          \<lparr>m_fd = 3, m_size = 14, m_addr = Some archive_truncated,
           m_files = [(''a'', \<lparr>len = 5, data = None, clen = - 1, cdata = None\<rparr>)],
           cache_manager = ()\<rparr>)"
    by (simp add: loadMmap_def test_env_def g0_def FileCache_new_def archive_truncated_def
          loadMmap_loop.simps loadMmap_record_def read_bytes_mem_def memcpy_def overlay_def
          le_bytes_2 exists_def c_str_def NUL_def s16_def s32_def Let_def)
  show ?thesis
    using r l by simp
qed

subsection \<open>Duplicate paths\<close>

text \<open>
  Registering a path that is present fails on the assertion (when assertions are compiled
  in), with the table as it was; and a record whose name is present is the exception \<open>SameFileTwice\<close> in both loaders,
  when the name holds no NUL byte (then \<^verbatim>\<open>c_str()\<close> is the whole name).
\<close>

lemma registration_of_present_path_fails:
  assumes "name \<noteq> []" and "exists ext g t name True"
  shows "write_name ext g t name addDirectories = Inl (AssertionFailed, t)"
    and "write_fullpath ext g t name fullpath = Inl (AssertionFailed, t)"
  using assms by (simp_all add: write_name_def write_fullpath_def)

lemma load_record_rejects_duplicate:
  assumes f: "rest f = le_bytes 2 (int (length name)) @ name @ tail"
    and nm: "name \<noteq> []" "length name < 32768"
    and ex: "exists ext g t (c_str name) True"
  shows "load_record ext g onDemandUncompress version f t =
           Inl (Exception (SameFileTwice (c_str name)), t)"
proof -
  have f': "f = \<lparr>rest = le_bytes 2 (int (length name)) @ name @ tail, eof = eof f\<rparr>"
    using f by (cases f) simp
  have r1: "read_bytes f 2 =
      (True, le_bytes 2 (int (length name)), \<lparr>rest = name @ tail, eof = eof f\<rparr>)"
    by (subst f', rule read_bytes_prefix) (simp_all add: numeral_2_eq_2)
  have nl: "s16 (le_val (le_bytes 2 (int (length name)))) = int (length name)"
    using nm by (intro s16_le_bytes) simp_all
  have r2: "read_bytes \<lparr>rest = name @ tail, eof = eof f\<rparr> (length name) =
      (True, name, \<lparr>rest = tail, eof = eof f\<rparr>)"
    using nm by (intro read_bytes_prefix) simp_all
  show ?thesis
    using nm ex by (simp add: load_record_def r1 nl r2 Let_def)
qed

lemma loadMmap_record_rejects_duplicate:
  assumes e: "e \<le> length region"
    and r: "drop p region = le_bytes 2 (int (length name)) @ name @ tail"
    and nm: "name \<noteq> []" "length name < 32768"
    and fit: "p + 2 + length name \<le> e"
    and ex: "exists ext g t (c_str name) True"
  shows "loadMmap_record ext g region e p t =
           Inl (Exception (SameFileTwice (c_str name)), t)"
proof -
  have r1: "read_bytes_mem region p e 2 = Inr (True, le_bytes 2 (int (length name)), p + 2)"
    using e fit by (simp add: read_bytes_mem_eq r)
  have nl: "s16 (le_val (le_bytes 2 (int (length name)))) = int (length name)"
    using nm by (intro s16_le_bytes) simp_all
  have "drop (Suc (Suc p)) region = drop 2 (drop p region)"
    by (simp add: add.commute)
  then have d: "drop (Suc (Suc p)) region = name @ tail"
    by (simp add: r)
  have r2: "read_bytes_mem region (Suc (Suc p)) e (length name) =
      Inr (True, name, p + 2 + length name)"
    using e fit nm by (simp add: read_bytes_mem_eq d)
  show ?thesis
    using nm ex by (simp add: loadMmap_record_def r1 nl r2 Let_def overlay_full)
qed

text \<open>
  So an archive that \<^verbatim>\<open>save\<close> would write for a list of entries of a build in which a
  name is repeated fails to load with \<open>SameFileTwice\<close>.
\<close>

lemma load_loop_rejects_duplicate:
  assumes g: "\<not> UseNewCache g"
  shows "save_entries es = Inr bs \<Longrightarrow>
    (\<forall>(n, b) \<in> set es. reload_ok ext n b) \<Longrightarrow>
    \<not> distinct (map fst es) \<or> (\<exists>(n, b) \<in> set es. map_of (m_files t) n \<noteq> None) \<Longrightarrow>
    \<exists>name t'. load_loop ext g False 1 \<lparr>rest = bs, eof = False\<rparr> t =
      Inl (Exception (SameFileTwice name), t')"
proof (induction es arbitrary: t bs)
  case Nil
  then show ?case by simp
next
  case (Cons nb es)
  obtain n b where nb: "nb = (n, b)"
    by (cases nb)
  from Cons.prems(1) obtain b1 b2 where s1: "save_entry (n, b) = Inr b1"
    and s2: "save_entries es = Inr b2" and bs: "bs = b1 @ b2"
    by (auto simp: nb split: sum.splits)
  have ok: "reload_ok ext n b" and oks: "\<forall>(n, b) \<in> set es. reload_ok ext n b"
    using Cons.prems(2) by (simp_all add: nb)
  from ok have nm: "n \<noteq> []" "length n < 32768" and nul: "NUL \<notin> set n"
    by (simp_all add: reload_ok_def entry_ok_def)
  show ?case
  proof (cases "map_of (m_files t) n")
    case (Some v)
    then have ex: "exists ext g t (c_str n) True"
      using g nm by (simp add: c_str_id [OF nul] exists_def)
    from s1 [unfolded save_entry_ok [OF ok]] obtain tail where
      "b1 @ b2 = le_bytes 2 (int (length n)) @ n @ tail"
      by auto
    then have "rest \<lparr>rest = bs, eof = False\<rparr> = le_bytes 2 (int (length n)) @ n @ tail"
      by (simp add: bs)
    from load_record_rejects_duplicate [OF this nm ex]
    show ?thesis
      by (subst load_loop.simps) simp
  next
    case None
    define t1 where "t1 = t\<lparr>m_files := AList.update n (reloaded ext b) (m_files t)\<rparr>"
    have r: "load_record ext g False 1 \<lparr>rest = bs, eof = False\<rparr> t =
        Inr (Some (\<lparr>rest = b2, eof = False\<rparr>, t1))"
      unfolding bs t1_def by (rule load_record_saved [OF ok g None s1])
    have look: "map_of (m_files t1) k = (if k = n then Some (reloaded ext b) else map_of (m_files t) k)"
      for k
      by (simp add: t1_def update_conv')
    have "\<not> distinct (map fst es) \<or> (\<exists>(n', b') \<in> set es. map_of (m_files t1) n' \<noteq> None)"
    proof (cases "distinct (map fst es)")
      case True
      from Cons.prems(3) None True
      consider b' where "(n, b') \<in> set es"
        | n' b' where "(n', b') \<in> set es" "map_of (m_files t) n' \<noteq> None"
        by (auto simp: nb)
      then have "\<exists>(n', b') \<in> set es. map_of (m_files t1) n' \<noteq> None"
      proof cases
        case 1
        then show ?thesis
          by (intro bexI [of _ "(n, b')"]) (simp_all add: look)
      next
        case 2
        then show ?thesis
          by (intro bexI [of _ "(n', b')"]) (auto simp add: look)
      qed
      then show ?thesis ..
    next
      case False
      then show ?thesis ..
    qed
    from Cons.IH [OF s2 oks this] show ?thesis
      by (subst load_loop.simps) (simp add: r)
  qed
qed

lemma load_rejects_duplicate:
  assumes g: "\<not> UseNewCache g" and f: "filename \<noteq> []"
    and s: "save_entries es = Inr bs"
    and archive: "fopen_r ext filename = Some (le_bytes 2 (- 1) @ le_bytes 2 1 @ bs)"
    and ok: "\<forall>(n, b) \<in> set es. reload_ok ext n b"
    and dup: "\<not> distinct (map fst es)"
  shows "\<exists>name t'. load ext g t filename False 1 = Inl (Exception (SameFileTwice name), t')"
proof -
  have r1: "read_bytes \<lparr>rest = le_bytes 2 (- 1) @ le_bytes 2 1 @ bs, eof = False\<rparr> 2 =
      (True, le_bytes 2 (- 1), \<lparr>rest = le_bytes 2 1 @ bs, eof = False\<rparr>)"
    by (rule read_bytes_prefix) (simp_all add: le_bytes_2)
  have r2: "read_bytes \<lparr>rest = le_bytes 2 1 @ bs, eof = False\<rparr> 2 =
      (True, le_bytes 2 1, \<lparr>rest = bs, eof = False\<rparr>)"
    by (rule read_bytes_prefix) (simp_all add: le_bytes_2)
  have skip: "snd (snd (read_bytes (snd (snd (read_bytes
      \<lparr>rest = le_bytes 2 (- 1) @ le_bytes 2 1 @ bs, eof = False\<rparr> 2))) 2)) =
      \<lparr>rest = bs, eof = False\<rparr>"
    by (simp add: r1 r2)
  from load_loop_rejects_duplicate [OF g s ok, of t] dup
  obtain name t' where "load_loop ext g False 1 \<lparr>rest = bs, eof = False\<rparr> t =
      Inl (Exception (SameFileTwice name), t')"
    by blast
  then show ?thesis
    using g f by (simp add: load_def archive skip)
qed

text \<open>
  C5: the code does not do what the claim says. Both loaders look the name of a record up
  through \<^verbatim>\<open>file.c_str()\<close>, which stops at the first NUL byte, and store it under the
  whole name. In the archive \<open>archive_dup\<close> the name \<open>a\<close>, NUL appears twice; it is
  looked up as \<open>a\<close>, never found, and both loaders return normally, the second record
  having overwritten the first.
\<close>

theorem duplicate_path_with_NUL_loads:
  "load (test_env (\<lambda>p. Some archive_dup)) g0 (FileCache_new ()) ''archive'' False 1 =
     Inr \<lparr>m_fd = - 1, m_size = 0, m_addr = None,
          m_files = [([CHR ''a'', CHR 0x00], \<lparr>len = - 2, data = None, clen = - 1, cdata = None\<rparr>)],
          cache_manager = ()\<rparr> \<and>
   snd (loadMmap (test_env (\<lambda>p. Some archive_dup)) g0 (FileCache_new ()) ''archive'' 1) =
     Inr \<lparr>m_fd = 3, m_size = 22, m_addr = Some archive_dup,
          m_files = [([CHR ''a'', CHR 0x00], \<lparr>len = - 2, data = None, clen = - 1, cdata = None\<rparr>)],
          cache_manager = ()\<rparr>"
proof -
  have a: "load (test_env (\<lambda>p. Some archive_dup)) g0 (FileCache_new ()) ''archive'' False 1 =
     Inr \<lparr>m_fd = - 1, m_size = 0, m_addr = None,
          m_files = [([CHR ''a'', CHR 0x00], \<lparr>len = - 2, data = None, clen = - 1, cdata = None\<rparr>)],
          cache_manager = ()\<rparr>"
    by (simp add: load_def test_env_def g0_def FileCache_new_def archive_dup_def read_bytes_eq
          load_loop.simps load_record_def exists_def c_str_def NUL_def s16_def s32_def Let_def)
  have b: "snd (loadMmap (test_env (\<lambda>p. Some archive_dup)) g0 (FileCache_new ()) ''archive'' 1) =
     Inr \<lparr>m_fd = 3, m_size = 22, m_addr = Some archive_dup,
          m_files = [([CHR ''a'', CHR 0x00], \<lparr>len = - 2, data = None, clen = - 1, cdata = None\<rparr>)],
          cache_manager = ()\<rparr>"
    by (simp add: loadMmap_def test_env_def g0_def FileCache_new_def archive_dup_def
          loadMmap_loop.simps loadMmap_record_def read_bytes_mem_def memcpy_def overlay_def
          le_bytes_2 exists_def c_str_def NUL_def s16_def s32_def Let_def adviseOutMemory_def)
  show ?thesis
    using a b by simp
qed

subsection \<open>Saving and loading\<close>

text \<open>
  C1, as amended. With the alternate backend off, take a build whose paths hold no NUL
  byte and are shorter than 32768 bytes, whose files are shorter than the largest
  \<^verbatim>\<open>int\<close>, and in which every compressed form that was kept is not empty and is decoded
  by the codec to the raw bytes. Then \<^verbatim>\<open>save\<close> to a file that can be opened for writing
  succeeds, and \<^verbatim>\<open>load\<close> of the saved bytes into a new instance with the current version
  succeeds in either mode. On the loaded table \<^verbatim>\<open>exists\<close>, \<^verbatim>\<open>dirExists\<close>, \<^verbatim>\<open>fileExists\<close> and
  \<^verbatim>\<open>fileSize\<close> return what they return on the table of the build, in either mode.
  \<^verbatim>\<open>read\<close> returns the same length, the same flag and the same bytes, but for one case:
  when decompression was deferred and the caller asks for the raw bytes of an entry whose
  compressed form was kept, it returns the compressed bytes and their length with the
  flag set.
\<close>

theorem save_load_round_trip:
  assumes g: "\<not> UseNewCache g"
    and built: "register_all ext g (FileCache_new cm) regs = Inr t"
    and names: "\<forall>r \<in> set regs. NUL \<notin> set (reg_name r) \<and> length (reg_name r) < 32768"
    and entries: "\<forall>(n, b) \<in> set (m_files t). len b < 2147483647 \<and>
        (\<forall>cb. cdata b = Some cb \<longrightarrow> cb \<noteq> [] \<and> gzdecode ext cb = data b)"
    and out: "filename \<noteq> []" "fopen_w ext filename"
  shows "\<exists>bytes.
           save ext g t filename = Inr (Some bytes) \<and>
           (\<forall>onDemandUncompress. \<exists>t'.
              load (ext\<lparr>fopen_r := (fopen_r ext)(filename := Some bytes)\<rparr>) g (FileCache_new cm')
                filename onDemandUncompress kCurrentFileCacheVersion = Inr t' \<and>
              (\<forall>name isRelative n0 c0.
                 exists ext g t' name isRelative = exists ext g t name isRelative \<and>
                 dirExists ext g t' name isRelative = dirExists ext g t name isRelative \<and>
                 fileExists ext g t' name isRelative = fileExists ext g t name isRelative \<and>
                 fileSize ext g t' name isRelative = fileSize ext g t name isRelative \<and>
                 bytes_read (read ext g t' name n0 c0) =
                   (case map_of (m_files t) name of
                      Some b \<Rightarrow>
                        if onDemandUncompress \<and> \<not> c0 \<and> cdata b \<noteq> None
                        then Inr (map_option (take (nat (clen b))) (cdata b), clen b, True)
                        else bytes_read (read ext g t name n0 c0)
                    | None \<Rightarrow> bytes_read (read ext g t name n0 c0))))"
proof -
  have "table_ok ext (FileCache_new cm)"
    by (simp add: table_ok_def FileCache_new_def)
  from register_all_table_ok [OF g names this built] have tok: "table_ok ext t" .
  then have d: "distinct (map fst (m_files t))"
    by (simp add: table_ok_def)
  have ok: "reload_ok ext k b" if "map_of (m_files t) k = Some b" for k b
  proof -
    from that have "(k, b) \<in> set (m_files t)"
      by (rule map_of_SomeD)
    with entries have "len b < 2147483647 \<and>
        (\<forall>cb. cdata b = Some cb \<longrightarrow> cb \<noteq> [] \<and> gzdecode ext cb = data b)"
      by blast
    moreover from tok that have "entry_ok ext k b"
      by (simp add: table_ok_def)
    ultimately show ?thesis
      by (simp add: reload_ok_def)
  qed
  have ok': "\<forall>(n, b) \<in> set (m_files t). reload_ok ext n b"
    using ok d by auto
  from save_entries_ok [OF ok'] obtain bs where bs: "save_entries (m_files t) = Inr bs"
    by blast
  define bytes where "bytes = le_bytes 2 (- 1) @ le_bytes 2 kCurrentFileCacheVersion @ bs"
  define ext' where "ext' = ext\<lparr>fopen_r := (fopen_r ext)(filename := Some bytes)\<rparr>"
  have sv: "save ext g t filename = Inr (Some bytes)"
    using g out by (simp add: save_def bs bytes_def)
  have r1: "read_bytes \<lparr>rest = bytes, eof = False\<rparr> 2 =
      (True, le_bytes 2 (- 1), \<lparr>rest = le_bytes 2 kCurrentFileCacheVersion @ bs, eof = False\<rparr>)"
    unfolding bytes_def by (rule read_bytes_prefix) (simp_all add: le_bytes_2)
  have r2: "read_bytes \<lparr>rest = le_bytes 2 kCurrentFileCacheVersion @ bs, eof = False\<rparr> 2 =
      (True, le_bytes 2 kCurrentFileCacheVersion, \<lparr>rest = bs, eof = False\<rparr>)"
    by (rule read_bytes_prefix) (simp_all add: le_bytes_2)
  have ok'': "\<forall>(n, b) \<in> set (m_files t). reload_ok ext' n b"
    using ok' by (simp add: ext'_def)
  have fresh: "\<forall>(n, b) \<in> set (m_files t). map_of (m_files (FileCache_new cm')) n = None"
    by (simp add: FileCache_new_def)
  have skip: "snd (snd (read_bytes (snd (snd (read_bytes \<lparr>rest = bytes, eof = False\<rparr> 2))) 2)) =
      \<lparr>rest = bs, eof = False\<rparr>"
    by (simp add: r1 r2)
  have op: "fopen_r ext' filename = Some bytes"
    by (simp add: ext'_def)
  have mode: "\<exists>t'.
      load ext' g (FileCache_new cm') filename odu kCurrentFileCacheVersion = Inr t' \<and>
      (\<forall>name isRelative n0 c0.
         exists ext g t' name isRelative = exists ext g t name isRelative \<and>
         dirExists ext g t' name isRelative = dirExists ext g t name isRelative \<and>
         fileExists ext g t' name isRelative = fileExists ext g t name isRelative \<and>
         fileSize ext g t' name isRelative = fileSize ext g t name isRelative \<and>
         bytes_read (read ext g t' name n0 c0) =
           (case map_of (m_files t) name of
              Some b \<Rightarrow>
                if odu \<and> \<not> c0 \<and> cdata b \<noteq> None
                then Inr (map_option (take (nat (clen b))) (cdata b), clen b, True)
                else bytes_read (read ext g t name n0 c0)
            | None \<Rightarrow> bytes_read (read ext g t name n0 c0)))" for odu
  proof -
    define t' where
      "t' = (FileCache_new cm')\<lparr>m_files := map (\<lambda>(n, b). (n, reloaded_as odu ext b)) (m_files t)\<rparr>"
    have ra: "reloaded_as odu ext' b = reloaded_as odu ext b" for b
      by (simp add: reloaded_as_def ext'_def split: option.splits)
    have ll: "load_loop ext' g odu 1 \<lparr>rest = bs, eof = False\<rparr> (FileCache_new cm') = Inr t'"
      using load_loop_saved_as [OF g bs d ok'' fresh, of odu]
      by (simp add: t'_def FileCache_new_def ra)
    have ld: "load ext' g (FileCache_new cm') filename odu kCurrentFileCacheVersion = Inr t'"
      using g out(1)
      by (simp add: load_def op skip ll kCurrentFileCacheVersion_def)
    have mt: "m_files t' = map (\<lambda>(n, b). (n, reloaded_as odu ext b)) (m_files t)"
      by (simp add: t'_def FileCache_new_def)
    note q = queries_reloaded_as [OF g ok mt]
    show ?thesis
      using ld q by blast
  qed
  show ?thesis
    using sv mode unfolding ext'_def by blast
qed

theorem save_load_round_trip_witness:
  "\<exists>bytes.
      save (test_env example_files) g0 file_table ''archive'' = Inr (Some bytes) \<and>
      (\<forall>onDemandUncompress. \<exists>t'.
         load ((test_env example_files)
                 \<lparr>fopen_r := (fopen_r (test_env example_files))(''archive'' := Some bytes)\<rparr>)
           g0 (FileCache_new ()) ''archive'' onDemandUncompress kCurrentFileCacheVersion = Inr t' \<and>
         (\<forall>name isRelative n0 c0.
            exists (test_env example_files) g0 t' name isRelative =
              exists (test_env example_files) g0 file_table name isRelative \<and>
            dirExists (test_env example_files) g0 t' name isRelative =
              dirExists (test_env example_files) g0 file_table name isRelative \<and>
            fileExists (test_env example_files) g0 t' name isRelative =
              fileExists (test_env example_files) g0 file_table name isRelative \<and>
            fileSize (test_env example_files) g0 t' name isRelative =
              fileSize (test_env example_files) g0 file_table name isRelative \<and>
            bytes_read (read (test_env example_files) g0 t' name n0 c0) =
              (case map_of (m_files file_table) name of
                 Some b \<Rightarrow>
                   if onDemandUncompress \<and> \<not> c0 \<and> cdata b \<noteq> None
                   then Inr (map_option (take (nat (clen b))) (cdata b), clen b, True)
                   else bytes_read (read (test_env example_files) g0 file_table name n0 c0)
               | None \<Rightarrow> bytes_read (read (test_env example_files) g0 file_table name n0 c0))))"
proof -
  have g: "\<not> UseNewCache g0"
    by (simp add: g0_def)
  have built: "register_all (test_env example_files) g0 (FileCache_new ()) file_regs =
      Inr file_table"
    by code_simp
  have names: "\<forall>r \<in> set file_regs. NUL \<notin> set (reg_name r) \<and> length (reg_name r) < 32768"
    by (simp add: file_regs_def NUL_def)
  have dec: "rle_decode [CHR 0x10, CHR ''a''] = Some ''aaaaaaaaaaaaaaaa''"
    by code_simp
  have entries: "\<forall>(n, b) \<in> set (m_files file_table). len b < 2147483647 \<and>
      (\<forall>cb. cdata b = Some cb \<longrightarrow> cb \<noteq> [] \<and> gzdecode (test_env example_files) cb = data b)"
    by (auto simp: file_table_def test_env_def dec simp del: rle_decode.simps)
  have out: "''archive'' \<noteq> []" "fopen_w (test_env example_files) ''archive''"
    by (simp_all add: test_env_def)
  show ?thesis
    by (rule save_load_round_trip [OF g built names entries out])
qed

text \<open>
  C1 as stated fails when \<^verbatim>\<open>load\<close> defers decompression: for the file \<open>d/a.txt\<close>, whose
  compressed form was kept, \<^verbatim>\<open>read\<close> with \<^verbatim>\<open>compressed = false\<close> returns the sixteen raw
  bytes on the table of the build, and the two compressed bytes with the flag set on the
  loaded table.
\<close>

theorem deferred_load_reads_differ:
  "register_all (test_env example_files) g0 (FileCache_new ()) file_regs = Inr file_table \<and>
   save (test_env example_files) g0 file_table ''archive'' = Inr (Some file_archive) \<and>
   load (test_env (\<lambda>p. Some file_archive)) g0 (FileCache_new ()) ''archive'' True
     kCurrentFileCacheVersion = Inr file_deferred \<and>
   read (test_env example_files) g0 file_table ''d/a.txt'' 0 False =
     Inr (Some ''aaaaaaaaaaaaaaaa'', 16, False) \<and>
   read (test_env example_files) g0 file_deferred ''d/a.txt'' 0 False =
     Inr (Some [CHR 0x10, CHR ''a'', CHR 0x00], 2, True) \<and>
   bytes_read (read (test_env example_files) g0 file_deferred ''d/a.txt'' 0 False) \<noteq>
     bytes_read (read (test_env example_files) g0 file_table ''d/a.txt'' 0 False)"
  by code_simp

end
